theory Spec2Isabelle
  imports Main "HOL-Library.Word"
begin

unbundle bit_operations_syntax

section \<open>Machine types\<close>

text \<open>
  \<open>Size\<close> counts bytes and elements and is modelled on \<open>nat\<close>; the narrowing casts
  \<open>(U32)\<close> of the source are written out with \<open>of_nat\<close> into \<open>32 word\<close>, and
  the \<open>U32\<close> loop counter is a \<open>32 word\<close>. Sums of sizes and pointer offsets are
  not wrapped at the width of \<open>Size\<close>: no object of the program is that large. A
  byte of name text is a \<open>char\<close>.
\<close>

type_synonym U16 = "16 word"
type_synonym U32 = "32 word"
type_synonym Id = U32
type_synonym Size = nat

section \<open>Value kinds (resolve/inst.h)\<close>

text \<open>
  \<open>Value::Kind\<close>, one constructor per enumerator value in declaration order.
  \<open>FirstConst\<close> and \<open>LastConst\<close> are second names of \<open>ConstInt\<close> and
  \<open>ConstString\<close>; \<open>FirstInst\<close> is an enumerator value of its own.
\<close>

datatype Kind =
    Arg
  | ConstInt | ConstFloat | ConstString
  | FirstInst
  | InstTrunc | InstFTrunc | InstZExt | InstSExt | InstFExt
  | InstAdd | InstSub | InstMul | InstDiv | InstIDiv | InstRem | InstIRem
  | InstFAdd | InstFSub | InstFMul | InstFDiv
  | InstICmp | InstFCmp
  | InstShl | InstShr | InstSar | InstAnd | InstOr | InstXor
  | InstRecord | InstTup | InstFun
  | InstCall | InstCallGen | InstCallDyn | InstCallDynGen | InstCallForeign
  | InstJe | InstJmp | InstRet | InstPhi

abbreviation FirstConst :: Kind where "FirstConst \<equiv> ConstInt"
abbreviation LastConst :: Kind where "LastConst \<equiv> ConstString"

text \<open>The integer value the C++ enumeration gives each kind.\<close>

fun kind_value :: "Kind \<Rightarrow> nat" where
  "kind_value Arg = 0"
| "kind_value ConstInt = 1" | "kind_value ConstFloat = 2" | "kind_value ConstString = 3"
| "kind_value FirstInst = 4"
| "kind_value InstTrunc = 5" | "kind_value InstFTrunc = 6" | "kind_value InstZExt = 7"
| "kind_value InstSExt = 8" | "kind_value InstFExt = 9"
| "kind_value InstAdd = 10" | "kind_value InstSub = 11" | "kind_value InstMul = 12"
| "kind_value InstDiv = 13" | "kind_value InstIDiv = 14" | "kind_value InstRem = 15"
| "kind_value InstIRem = 16"
| "kind_value InstFAdd = 17" | "kind_value InstFSub = 18" | "kind_value InstFMul = 19"
| "kind_value InstFDiv = 20"
| "kind_value InstICmp = 21" | "kind_value InstFCmp = 22"
| "kind_value InstShl = 23" | "kind_value InstShr = 24" | "kind_value InstSar = 25"
| "kind_value InstAnd = 26" | "kind_value InstOr = 27" | "kind_value InstXor = 28"
| "kind_value InstRecord = 29" | "kind_value InstTup = 30" | "kind_value InstFun = 31"
| "kind_value InstCall = 32" | "kind_value InstCallGen = 33" | "kind_value InstCallDyn = 34"
| "kind_value InstCallDynGen = 35" | "kind_value InstCallForeign = 36"
| "kind_value InstJe = 37" | "kind_value InstJmp = 38" | "kind_value InstRet = 39"
| "kind_value InstPhi = 40"

text \<open>
  \<open>isTerminating\<close> compares the enumerator values, as the C++ \<open>==\<close> on the
  enumeration does.
\<close>

definition isTerminating :: "Kind \<Rightarrow> bool" where
  "isTerminating kind \<longleftrightarrow>
     kind_value kind = kind_value InstRet \<or> kind_value kind = kind_value InstJe
     \<or> kind_value kind = kind_value InstJmp"

text \<open>Every kind, in declaration order.\<close>

definition all_kinds :: "Kind list" where
  "all_kinds =
    [Arg, ConstInt, ConstFloat, ConstString, FirstInst,
     InstTrunc, InstFTrunc, InstZExt, InstSExt, InstFExt,
     InstAdd, InstSub, InstMul, InstDiv, InstIDiv, InstRem, InstIRem,
     InstFAdd, InstFSub, InstFMul, InstFDiv, InstICmp, InstFCmp,
     InstShl, InstShr, InstSar, InstAnd, InstOr, InstXor,
     InstRecord, InstTup, InstFun,
     InstCall, InstCallGen, InstCallDyn, InstCallDynGen, InstCallForeign,
     InstJe, InstJmp, InstRet, InstPhi]"

section \<open>Memory\<close>

text \<open>
  A pointer is a block and a byte offset in it. \<open>Chunk n\<close> is the block the arena's
  \<open>n\<close>-th call of \<open>malloc\<close> returned, \<open>Ext n\<close> is memory the arena does not own
  (a caller's buffer), and \<open>(NullBlk, 0)\<close> is \<open>nullptr\<close>. Pointer arithmetic moves
  the offset; a comparison of two pointers compares their offsets, and is meaningful
  only inside one block, as in C++.
\<close>

datatype block = NullBlk | Ext nat | Chunk nat

type_synonym ptr = "block \<times> nat"

definition nullptr :: ptr where
  "nullptr = (NullBlk, 0)"

definition ptr_add :: "ptr \<Rightarrow> nat \<Rightarrow> ptr" where
  "ptr_add p n = (fst p, snd p + n)"

definition ptr_gt :: "ptr \<Rightarrow> ptr \<Rightarrow> bool" where
  "ptr_gt p q \<longleftrightarrow> snd q < snd p"

text \<open>
  The store is split by the type of the access: \<open>bytes\<close> holds what is read and
  written through \<open>char*\<close>, \<open>words\<close> what is read and written through \<open>U32*\<close>
  (addressed by the byte address of the element). The code never reads a location
  through the other type.
\<close>

record Memory =
  bytes :: "ptr \<Rightarrow> char"
  words :: "ptr \<Rightarrow> U32"

definition read_bytes :: "Memory \<Rightarrow> ptr \<Rightarrow> Size \<Rightarrow> char list" where
  "read_bytes m p n = map (\<lambda>i. bytes m (ptr_add p i)) [0..<n]"

text \<open>\<open>memcpy(dst, src, n)\<close>: every byte of the destination receives the byte the
  source held before the call.\<close>

definition memcpy :: "Memory \<Rightarrow> ptr \<Rightarrow> ptr \<Rightarrow> Size \<Rightarrow> Memory" where
  "memcpy m dst src n =
     m\<lparr>bytes := (\<lambda>q. if fst q = fst dst \<and> snd dst \<le> snd q \<and> snd q < snd dst + n
                      then bytes m (ptr_add src (snd q - snd dst))
                      else bytes m q)\<rparr>"

definition store_word :: "Memory \<Rightarrow> ptr \<Rightarrow> nat \<Rightarrow> U32 \<Rightarrow> Memory" where
  \<comment> \<open>\<open>a[i] = v\<close> for \<open>U32* a\<close>; \<open>sizeof(U32)\<close> is 4\<close>
  "store_word m a i v = m\<lparr>words := (words m)(ptr_add a (4 * i) := v)\<rparr>"

definition read_words :: "Memory \<Rightarrow> ptr \<Rightarrow> nat \<Rightarrow> U32 list" where
  "read_words m a n = map (\<lambda>i. words m (ptr_add a (4 * i))) [0..<n]"

section \<open>Arena (compiler/context.cpp)\<close>

text \<open>
  The fields of \<open>Arena\<close> as \<open>Arena::alloc\<close> and the destructor use them: the bump
  pointer \<open>buffer\<close>, the end \<open>max\<close> of the current chunk (here \<open>max_p\<close>) and the
  list \<open>buffers\<close> of the chunks obtained so far. The class declaration and the
  constant \<open>kChunkSize\<close> are in context.h, which is not among the sources;
  \<open>kChunkSize\<close> is a parameter of the model.
\<close>

record Arena =
  buffer :: ptr
  max_p :: ptr
  buffers :: "ptr list"

text \<open>
  Modelled from the spec: the constructor of \<open>Arena\<close> is in context.h, not among the
  sources. The specification has the arena obtain a chunk when the current one cannot
  satisfy a request, so a new arena owns no chunk; its \<open>buffer\<close> and \<open>max\<close> are
  null, the state to which the destructor in context.cpp resets them.
\<close>

definition Arena_init :: Arena where
  "Arena_init = \<lparr>buffer = nullptr, max_p = nullptr, buffers = []\<rparr>"

text \<open>\<open>malloc\<close> returns the start of a block that no earlier block overlaps: the next
  unused chunk. A failing \<open>malloc\<close> is not modelled (the code does not test for it).\<close>

definition malloc :: "Arena \<Rightarrow> ptr" where
  "malloc a = (Chunk (length (buffers a)), 0)"

definition alloc :: "Size \<Rightarrow> Arena \<Rightarrow> Size \<Rightarrow> ptr \<times> Arena" where
  "alloc kChunkSize a sz =
     (let a1 = (if ptr_gt (ptr_add (buffer a) sz) (max_p a)
                then (let b = malloc a
                      in a\<lparr>buffer := b, max_p := ptr_add b kChunkSize,
                           buffers := buffers a @ [b]\<rparr>)
                else a);
          it = buffer a1
      in (it, a1\<lparr>buffer := ptr_add (buffer a1) sz\<rparr>))"

text \<open>A sequence of calls of \<open>alloc\<close>: the returned pointers with the requested
  sizes, in call order, and the arena afterwards.\<close>

fun allocs :: "Size \<Rightarrow> Arena \<Rightarrow> Size list \<Rightarrow> (ptr \<times> Size) list \<times> Arena" where
  "allocs kChunkSize a [] = ([], a)"
| "allocs kChunkSize a (sz # szs) =
     (let (p, a1) = alloc kChunkSize a sz;
          (rs, a2) = allocs kChunkSize a1 szs
      in ((p, sz) # rs, a2))"

text \<open>The bytes of a returned range \<open>[p, p + sz)\<close>.\<close>

definition range_bytes :: "ptr \<times> Size \<Rightarrow> ptr set" where
  "range_bytes r = {q. fst q = fst (fst r) \<and> snd (fst r) \<le> snd q \<and> snd q < snd (fst r) + snd r}"

definition overlap :: "ptr \<times> Size \<Rightarrow> ptr \<times> Size \<Rightarrow> bool" where
  "overlap r s \<longleftrightarrow>
     fst (fst r) = fst (fst s) \<and> 0 < snd r \<and> 0 < snd s
     \<and> snd (fst r) < snd (fst s) + snd s \<and> snd (fst s) < snd (fst r) + snd r"

text \<open>A range lies inside the storage of its chunk: every chunk has \<open>kChunkSize\<close>
  bytes, and the null pointer owns no byte.\<close>

definition in_chunk :: "Size \<Rightarrow> ptr \<times> Size \<Rightarrow> bool" where
  "in_chunk kChunkSize r =
     (case fst (fst r) of
        Chunk n \<Rightarrow> snd (fst r) + snd r \<le> kChunkSize
      | NullBlk \<Rightarrow> snd r = 0
      | Ext n \<Rightarrow> False)"

text \<open>The bytes handed out from block \<open>b\<close> by a sequence of allocations.\<close>

definition chunk_total :: "block \<Rightarrow> (ptr \<times> Size) list \<Rightarrow> nat" where
  "chunk_total b rs = sum_list (map snd (filter (\<lambda>r. fst (fst r) = b) rs))"

text \<open>The states of an arena that has only served requests of at most
  \<open>kChunkSize\<close> bytes.\<close>

definition arena_inv :: "Size \<Rightarrow> Arena \<Rightarrow> bool" where
  "arena_inv kChunkSize a \<longleftrightarrow>
     fst (buffer a) = fst (max_p a) \<and> snd (buffer a) \<le> snd (max_p a)
     \<and> (if buffers a = [] then buffer a = nullptr \<and> max_p a = nullptr
        else fst (buffer a) = Chunk (length (buffers a) - 1) \<and> snd (max_p a) = kChunkSize)"

section \<open>Hasher\<close>

text \<open>
  \<open>Hasher\<close> is declared in a header that is not among the sources. The code
  default-constructs it (\<open>fresh\<close>), feeds it with \<open>addByte\<close> and \<open>addBytes\<close> and
  reads the hash with \<open>get\<close>; the model takes these four operations as a parameter,
  over any type of accumulator.
\<close>

record 's Hasher =
  fresh :: 's
  addByte :: "'s \<Rightarrow> char \<Rightarrow> 's"
  addBytes :: "'s \<Rightarrow> char list \<Rightarrow> 's"
  get :: "'s \<Rightarrow> Id"

text \<open>\<open>Hasher hash; hash.addBytes(p, n); hash.get()\<close>\<close>

definition hash_bytes :: "'s Hasher \<Rightarrow> char list \<Rightarrow> Id" where
  "hash_bytes H bs = get H (addBytes H (fresh H) bs)"

text \<open>\<open>Hasher hash;\<close> then \<open>hash.addByte(b)\<close> for each byte in turn, then
  \<open>hash.get()\<close>\<close>

definition hash_each :: "'s Hasher \<Rightarrow> char list \<Rightarrow> Id" where
  "hash_each H bs = get H (fold (\<lambda>b h. addByte H h b) bs (fresh H))"

text \<open>An instance for evaluating the model on concrete inputs: 32-bit FNV-1a.\<close>

definition fnv1a :: "U32 Hasher" where
  "fnv1a = \<lparr>fresh = 2166136261,
            addByte = (\<lambda>h b. (h XOR of_char b) * 16777619),
            addBytes = (\<lambda>h bs. fold (\<lambda>b h. (h XOR of_char b) * 16777619) bs h),
            get = (\<lambda>h. h)\<rparr>"

section \<open>Context (compiler/context.cpp)\<close>

text \<open>
  \<open>Assoc\<close>, \<open>OpProperties\<close>, \<open>Identifier\<close>, \<open>Context\<close> and the map types are
  declared in context.h, which is not among the sources; the model has the fields and
  operations that context.cpp uses.

  \<open>Identifier\<close>: the code stores \<open>segmentHash\<close> when it sets \<open>segmentCount\<close> to 1
  and \<open>segmentHashes\<close> otherwise, never both, and \<open>addIdentifier\<close> reads
  \<open>segmentHash\<close> only when \<open>segmentCount\<close> is 1. The model keeps the two in one
  field \<open>hashes\<close> with a constructor for each.
\<close>

datatype Assoc = Left | Right

record OpProperties =
  precedence :: U16
  associativity :: Assoc

datatype seg_hash = SegmentHash Id | SegmentHashes ptr

record Identifier =
  text_p :: ptr
  textLength :: U32
  segmentCount :: U32
  segments :: ptr
  hashes :: seg_hash

text \<open>
  The operator table is used through \<open>ops[op] = prop\<close> (insert or overwrite) and
  \<open>ops.get(op)\<close> (a pointer to the stored value, null when the key is absent): a
  partial map. The identifier table is a partial map from keys to identifiers.
\<close>

record Context =
  stringArena :: Arena
  identifiers :: "Id \<rightharpoonup> Identifier"
  ops :: "Id \<rightharpoonup> OpProperties"

text \<open>
  Modelled from the spec: \<open>identifiers.add(i, id)\<close> is a method of a map class that
  is not among the sources. The specification gives it last/associative semantics: an
  insertion under a key that is present is permitted, and no existing entry is
  returned instead. The model stores the new value under the key.
\<close>

definition identifiers_add :: "(Id \<rightharpoonup> Identifier) \<Rightarrow> Id \<Rightarrow> Identifier \<Rightarrow> (Id \<rightharpoonup> Identifier)" where
  "identifiers_add t k v = t(k \<mapsto> v)"

text \<open>
  Modelled from the spec: the constructor of \<open>Context\<close> is in context.h, not among
  the sources. A new context owns a new arena, and nothing has been registered or
  interned in it yet.
\<close>

definition Context_init :: Context where
  "Context_init = \<lparr>stringArena = Arena_init, identifiers = Map.empty, ops = Map.empty\<rparr>"

definition addOp :: "Id \<Rightarrow> U16 \<Rightarrow> Assoc \<Rightarrow> Context \<Rightarrow> Context" where
  "addOp op prec assoc c =
     (let prop = \<lparr>precedence = prec, associativity = assoc\<rparr>
      in c\<lparr>ops := (ops c)(op \<mapsto> prop)\<rparr>)"

definition findOp :: "Context \<Rightarrow> Id \<Rightarrow> OpProperties" where
  "findOp c op =
     (let res = ops c op in
      case res of
        Some r \<Rightarrow> r
      | None \<Rightarrow> \<lparr>precedence = 9, associativity = Left\<rparr>)"

text \<open>A sequence of registrations, in call order.\<close>

fun addOps :: "(Id \<times> U16 \<times> Assoc) list \<Rightarrow> Context \<Rightarrow> Context" where
  "addOps [] c = c"
| "addOps ((op, prec, assoc) # rest) c = addOps rest (addOp op prec assoc c)"

text \<open>
  \<open>addIdentifier\<close> returns the key and the context with the identifier stored. It
  reads the name text through \<open>id.text\<close> from the memory of the moment. The result
  is \<open>None\<close> where the code would read \<open>segmentHash\<close> from an identifier that
  carries the array of segment hashes instead.
\<close>

definition addIdentifier ::
  "'s Hasher \<Rightarrow> Identifier \<Rightarrow> Context \<Rightarrow> Memory \<Rightarrow> (Id \<times> Context) option" where
  "addIdentifier H ident c m =
     (let key = (if segmentCount ident = 1
                 then (case hashes ident of
                         SegmentHash h \<Rightarrow> Some h
                       | SegmentHashes hs \<Rightarrow> None)
                 else Some (hash_bytes H
                              (read_bytes m (text_p ident) (unat (textLength ident)))))
      in case key of
           None \<Rightarrow> None
         | Some i \<Rightarrow> Some (i, c\<lparr>identifiers := identifiers_add (identifiers c) i ident\<rparr>))"

text \<open>
  Modelled from the spec: \<open>Context::find\<close> returns \<open>identifiers[id]\<close>, the lookup
  of the same map class. The specification leaves it undefined for a key that was
  never added; the model shows that case as \<open>None\<close>.
\<close>

definition find_id :: "Context \<Rightarrow> Id \<Rightarrow> Identifier option" where
  "find_id c i = identifiers c i"

definition addUnqualifiedName ::
  "'s Hasher \<Rightarrow> ptr \<Rightarrow> Size \<Rightarrow> Context \<Rightarrow> Memory \<Rightarrow> (Id \<times> Context) option" where
  "addUnqualifiedName H chars count c m =
     (let hash = addBytes H (fresh H) (read_bytes m chars count);
          ident = \<lparr>text_p = chars, textLength = of_nat count, segmentCount = 1,
                   segments = nullptr, hashes = SegmentHash (get H hash)\<rparr>
      in addIdentifier H ident c m)"

text \<open>
  The inner loop of \<open>addQualifiedName\<close>,
  \<open>while(p < max && *p != '.') { hash.addByte(*p); p++; segmentLength++; }\<close>.
  The pointer \<open>p\<close> is held as its distance \<open>p - chars\<close>, and \<open>max\<close> as \<open>count\<close>;
  \<open>segmentLength\<close> is never read and is left out.
\<close>

function scan_segment ::
  "'s Hasher \<Rightarrow> Memory \<Rightarrow> ptr \<Rightarrow> Size \<Rightarrow> nat \<Rightarrow> 's \<Rightarrow> nat \<times> 's" where
  "scan_segment H m chars count p hash =
     (if p < count \<and> bytes m (ptr_add chars p) \<noteq> CHR ''.''
      then scan_segment H m chars count (p + 1) (addByte H hash (bytes m (ptr_add chars p)))
      else (p, hash))"
  by pat_completeness auto
termination
  by (relation "measure (\<lambda>(H, m, chars, count, p, hash). count - p)") auto

declare scan_segment.simps [simp del]

text \<open>
  The outer loop, \<open>for(U32 i = 0; i < segmentCount; i++)\<close>. The counter is a 32-bit
  word compared with a \<open>Size\<close>, so the loop does not end when \<open>segmentCount\<close> is
  \<open>2^32\<close> or more: the result is \<open>None\<close> then.
\<close>

partial_function (option) segment_loop ::
  "'s Hasher \<Rightarrow> ptr \<Rightarrow> Size \<Rightarrow> Size \<Rightarrow> ptr \<Rightarrow> ptr \<Rightarrow> U32 \<Rightarrow> nat \<Rightarrow> Memory \<Rightarrow> Memory option"
where
  "segment_loop H chars count segCount segs segHashes i p m =
     (if unat i < segCount
      then (let m1 = store_word m segs (unat i) (of_nat p);
                (p1, hash) = scan_segment H m1 chars count p (fresh H);
                m2 = store_word m1 segHashes (unat i) (get H hash)
            in segment_loop H chars count segCount segs segHashes (i + 1) p1 m2)
      else Some m)"

declare segment_loop.simps [code]

text \<open>
  \<open>addQualifiedName(chars, count, segmentCount)\<close> returns the key, the context and
  the memory afterwards. \<open>data + n\<close> on the \<open>U32*\<close> moves by \<open>4 * n\<close> bytes.
\<close>

definition addQualifiedName3 ::
  "'s Hasher \<Rightarrow> Size \<Rightarrow> ptr \<Rightarrow> Size \<Rightarrow> Size \<Rightarrow> Context \<Rightarrow> Memory
     \<Rightarrow> (Id \<times> Context \<times> Memory) option" where
  "addQualifiedName3 H kChunkSize chars count segCount c m =
     (if segCount \<le> 1
      then (let (text, a) = alloc kChunkSize (stringArena c) count;
                m1 = memcpy m text chars count;
                hash = addBytes H (fresh H) (read_bytes m1 chars count);
                ident = \<lparr>text_p = text, textLength = of_nat count, segmentCount = 1,
                         segments = nullptr, hashes = SegmentHash (get H hash)\<rparr>
            in case addIdentifier H ident (c\<lparr>stringArena := a\<rparr>) m1 of
                 None \<Rightarrow> None
               | Some (i, c1) \<Rightarrow> Some (i, c1, m1))
      else (let (data, a) = alloc kChunkSize (stringArena c) (count + 2 * (segCount * 4));
                name = ptr_add data (4 * (segCount * 2));
                m1 = memcpy m name chars count;
                ident = \<lparr>text_p = name, textLength = of_nat count,
                         segmentCount = of_nat segCount,
                         segments = data,
                         hashes = SegmentHashes (ptr_add data (4 * segCount))\<rparr>
            in case segment_loop H chars count segCount
                      data (ptr_add data (4 * segCount)) 0 0 m1 of
                 None \<Rightarrow> None
               | Some m2 \<Rightarrow>
                   (case addIdentifier H ident (c\<lparr>stringArena := a\<rparr>) m2 of
                      None \<Rightarrow> None
                    | Some (i, c1) \<Rightarrow> Some (i, c1, m2))))"

text \<open>The counting loop of the two-argument overload,
  \<open>for(Size i = 0; i < count; i++) if(chars[i] == '.') segmentCount++;\<close>\<close>

function count_segments :: "Memory \<Rightarrow> ptr \<Rightarrow> Size \<Rightarrow> Size \<Rightarrow> Size \<Rightarrow> Size" where
  "count_segments m chars count i segCount =
     (if i < count
      then count_segments m chars count (i + 1)
             (if bytes m (ptr_add chars i) = CHR ''.'' then segCount + 1 else segCount)
      else segCount)"
  by pat_completeness auto
termination
  by (relation "measure (\<lambda>(m, chars, count, i, segCount). count - i)") auto

declare count_segments.simps [simp del]

definition addQualifiedName2 ::
  "'s Hasher \<Rightarrow> Size \<Rightarrow> ptr \<Rightarrow> Size \<Rightarrow> Context \<Rightarrow> Memory
     \<Rightarrow> (Id \<times> Context \<times> Memory) option" where
  "addQualifiedName2 H kChunkSize chars count c m =
     (let segCount = count_segments m chars count 0 1
      in addQualifiedName3 H kChunkSize chars count segCount c m)"

text \<open>Writing a name into a caller's buffer, for concrete inputs.\<close>

definition put_bytes :: "Memory \<Rightarrow> ptr \<Rightarrow> char list \<Rightarrow> Memory" where
  "put_bytes m p bs =
     m\<lparr>bytes := (\<lambda>q. if fst q = fst p \<and> snd p \<le> snd q \<and> snd q < snd p + length bs
                      then bs ! (snd q - snd p) else bytes m q)\<rparr>"

definition Memory_zero :: Memory where
  "Memory_zero = \<lparr>bytes = (\<lambda>q. CHR 0x00), words = (\<lambda>q. 0)\<rparr>"

section \<open>Auxiliary notions for the arena proofs\<close>

text \<open>Where a later allocation can lie, seen from an arena state.\<close>

definition later_range :: "Arena \<Rightarrow> ptr \<times> Size \<Rightarrow> bool" where
  "later_range a r \<longleftrightarrow>
     (fst (fst r) = fst (buffer a) \<and> snd (buffer a) \<le> snd (fst r))
     \<or> (\<exists>k\<ge>length (buffers a). fst (fst r) = Chunk k)"

text \<open>The bytes an arena state can still hand out from block \<open>b\<close>.\<close>

definition room :: "Size \<Rightarrow> Arena \<Rightarrow> block \<Rightarrow> nat" where
  "room K a b =
     (if b = fst (buffer a) then snd (max_p a) - snd (buffer a)
      else case b of Chunk k \<Rightarrow> (if length (buffers a) \<le> k then K else 0) | _ \<Rightarrow> 0)"

text \<open>The chunks an arena owns are listed in \<open>buffers\<close>: chunk \<open>k\<close> is its
  \<open>k\<close>-th entry.\<close>

definition arena_chunks_ok :: "Arena \<Rightarrow> bool" where
  "arena_chunks_ok a \<longleftrightarrow> buffers a = map (\<lambda>k. (Chunk k, 0)) [0..<length (buffers a)]"

section \<open>Properties\<close>

text \<open>
  C7. \<open>isTerminating\<close> is a function of the kind alone; the kinds it accepts are
  exactly \<open>InstRet\<close>, \<open>InstJe\<close> and \<open>InstJmp\<close>, and it rejects each of the other
  thirty-eight kinds (arguments, constants, \<open>FirstInst\<close> and every other instruction).
\<close>

theorem isTerminating_exactly:
  "{k. isTerminating k} = {InstRet, InstJe, InstJmp}
   \<and> filter isTerminating all_kinds = [InstJe, InstJmp, InstRet]
   \<and> set all_kinds = UNIV"
proof -
  have "isTerminating k \<longleftrightarrow> k = InstRet \<or> k = InstJe \<or> k = InstJmp" for k
    by (cases k; simp add: isTerminating_def)
  then have a: "{k. isTerminating k} = {InstRet, InstJe, InstJmp}"
    by auto
  have b: "filter isTerminating all_kinds = [InstJe, InstJmp, InstRet]"
    unfolding isTerminating_def all_kinds_def by simp
  have c: "set all_kinds = UNIV"
  proof -
    have "k \<in> set all_kinds" for k
      unfolding all_kinds_def by (cases k; simp)
    then show ?thesis by auto
  qed
  from a b c show ?thesis by simp
qed

subsection \<open>Memory and loops\<close>

lemma Context_init_fields [simp]:
  "stringArena Context_init = Arena_init" "identifiers Context_init = Map.empty"
  "ops Context_init = Map.empty"
  by (simp_all add: Context_init_def)

text \<open>Concrete inputs: a name in a caller's buffer, and the first allocation of an arena.\<close>

lemma read_put_abcdef:
  "read_bytes (put_bytes Memory_zero (Ext 0, 0) ''a.bc.def'') (Ext 0, 0) 8 = ''a.bc.def''"
  by (simp add: read_bytes_def put_bytes_def ptr_add_def upt_conv_Cons)

lemma read_put_abc:
  "read_bytes (put_bytes Memory_zero (Ext 0, 0) ''abc'') (Ext 0, 0) 3 = ''abc''"
  by (simp add: read_bytes_def put_bytes_def ptr_add_def upt_conv_Cons)

lemma alloc_init_32:
  "alloc 64 Arena_init 32
     = ((Chunk 0, 0), \<lparr>buffer = (Chunk 0, 32), max_p = (Chunk 0, 64), buffers = [(Chunk 0, 0)]\<rparr>)"
  by (simp add: alloc_def Arena_init_def nullptr_def ptr_gt_def ptr_add_def
                malloc_def Let_def)

lemma alloc_init_3:
  "alloc 64 Arena_init 3
     = ((Chunk 0, 0), \<lparr>buffer = (Chunk 0, 3), max_p = (Chunk 0, 64), buffers = [(Chunk 0, 0)]\<rparr>)"
  by (simp add: alloc_def Arena_init_def nullptr_def ptr_gt_def ptr_add_def
                malloc_def Let_def)

lemma length_read_bytes [simp]: "length (read_bytes m p n) = n"
  by (simp add: read_bytes_def)

lemma nth_read_bytes: "i < n \<Longrightarrow> read_bytes m p n ! i = bytes m (ptr_add p i)"
  by (simp add: read_bytes_def)

lemma read_bytes_memcpy_dst: "read_bytes (memcpy m dst src n) dst n = read_bytes m src n"
  by (simp add: read_bytes_def memcpy_def ptr_add_def)

lemma read_bytes_memcpy_other:
  "\<not> overlap (dst, n) (p, k) \<Longrightarrow> read_bytes (memcpy m dst src n) p k = read_bytes m p k"
  by (auto simp: read_bytes_def memcpy_def ptr_add_def overlap_def)

lemma overlap_iff_range_bytes: "overlap r s \<longleftrightarrow> range_bytes r \<inter> range_bytes s \<noteq> {}"
proof
  assume "overlap r s"
  then have "(fst (fst r), max (snd (fst r)) (snd (fst s))) \<in> range_bytes r \<inter> range_bytes s"
    by (auto simp: overlap_def range_bytes_def)
  then show "range_bytes r \<inter> range_bytes s \<noteq> {}" by blast
next
  assume "range_bytes r \<inter> range_bytes s \<noteq> {}"
  then obtain q where "q \<in> range_bytes r" "q \<in> range_bytes s" by blast
  then show "overlap r s"
    by (auto simp: overlap_def range_bytes_def)
qed

lemma count_segments_eq:
  "i \<le> count \<Longrightarrow> count_segments m chars count i k
     = k + length (filter (\<lambda>b. b = CHR ''.'') (drop i (read_bytes m chars count)))"
proof (induction m chars count i k rule: count_segments.induct)
  case (1 m chars count i k)
  show ?case
  proof (cases "i < count")
    case True
    then have d: "drop i (read_bytes m chars count)
        = bytes m (ptr_add chars i) # drop (i + 1) (read_bytes m chars count)"
      by (simp add: Cons_nth_drop_Suc [symmetric] nth_read_bytes)
    from True have "count_segments m chars count i k
        = count_segments m chars count (i + 1)
             (if bytes m (ptr_add chars i) = CHR ''.'' then k + 1 else k)"
      by (subst count_segments.simps) simp
    also have "\<dots> = (if bytes m (ptr_add chars i) = CHR ''.'' then k + 1 else k)
        + length (filter (\<lambda>b. b = CHR ''.'') (drop (i + 1) (read_bytes m chars count)))"
      using True by (intro "1.IH") auto
    finally show ?thesis using d by simp
  next
    case False
    with 1 show ?thesis by (subst count_segments.simps) simp
  qed
qed

lemma bytes_store_word [simp]: "bytes (store_word m a i v) = bytes m"
  by (simp add: store_word_def)

lemma segment_loop_returns:
  "unat i \<le> n \<Longrightarrow> n < 2 ^ 32 \<Longrightarrow>
     \<exists>m'. segment_loop H chars count n segs hs i p m = Some m' \<and> bytes m' = bytes m"
proof (induction "n - unat i" arbitrary: i p m)
  case 0
  then have "\<not> unat i < n" by simp
  then show ?case by (subst segment_loop.simps) simp
next
  case (Suc k)
  then have lt: "unat i < n" by simp
  with Suc.prems have "unat i + 1 < 2 ^ 32" by simp
  then have u: "unat (i + 1) = unat i + 1"
    by (simp add: unat_word_ariths)
  obtain p1 h1 where sc: "scan_segment H (store_word m segs (unat i) (of_nat p)) chars count p (fresh H) = (p1, h1)"
    by (cases "scan_segment H (store_word m segs (unat i) (of_nat p)) chars count p (fresh H)")
  let ?m2 = "store_word (store_word m segs (unat i) (of_nat p)) hs (unat i) (get H h1)"
  have "\<exists>m'. segment_loop H chars count n segs hs (i + 1) p1 ?m2 = Some m' \<and> bytes m' = bytes ?m2"
    using Suc.hyps(2) lt u Suc.prems by (intro Suc.hyps(1)) auto
  then show ?case
    using lt sc by (subst segment_loop.simps) (simp add: Let_def)
qed

lemma read_bytes_cong: "bytes m = bytes m' \<Longrightarrow> read_bytes m p n = read_bytes m' p n"
  by (simp add: read_bytes_def)

lemma read_bytes_memcpy_prefix:
  "k \<le> n \<Longrightarrow> read_bytes (memcpy m dst src n) dst k = read_bytes m src k"
  by (simp add: read_bytes_def memcpy_def ptr_add_def)

lemma addQualifiedName3_single:
  assumes "segCount \<le> 1"
  shows "addQualifiedName3 H K chars count segCount c m =
     (let text = fst (alloc K (stringArena c) count);
          a = snd (alloc K (stringArena c) count);
          m1 = memcpy m text chars count;
          h = hash_bytes H (read_bytes m1 chars count)
      in Some (h, c\<lparr>stringArena := a,
                    identifiers := (identifiers c)(h \<mapsto>
                      \<lparr>text_p = text, textLength = of_nat count, segmentCount = 1,
                       segments = nullptr, hashes = SegmentHash h\<rparr>)\<rparr>, m1))"
  using assms
  by (simp add: addQualifiedName3_def addIdentifier_def hash_bytes_def identifiers_add_def
                Let_def split_beta)

lemma addQualifiedName3_multi:
  assumes "1 < n" "n < 2 ^ 32"
  shows "\<exists>m2. segment_loop H chars count n (fst (alloc K (stringArena c) (count + 2 * (n * 4))))
                 (ptr_add (fst (alloc K (stringArena c) (count + 2 * (n * 4)))) (4 * n)) 0 0
                 (memcpy m (ptr_add (fst (alloc K (stringArena c) (count + 2 * (n * 4)))) (4 * (n * 2)))
                    chars count) = Some m2
     \<and> bytes m2 = bytes (memcpy m (ptr_add (fst (alloc K (stringArena c) (count + 2 * (n * 4)))) (4 * (n * 2)))
                    chars count)
     \<and> addQualifiedName3 H K chars count n c m =
        Some (hash_bytes H (read_bytes m chars (count mod 2 ^ 32)),
              c\<lparr>stringArena := snd (alloc K (stringArena c) (count + 2 * (n * 4))),
                identifiers := (identifiers c)(hash_bytes H (read_bytes m chars (count mod 2 ^ 32)) \<mapsto>
                      \<lparr>text_p = ptr_add (fst (alloc K (stringArena c) (count + 2 * (n * 4)))) (4 * (n * 2)),
                       textLength = of_nat count, segmentCount = of_nat n,
                       segments = fst (alloc K (stringArena c) (count + 2 * (n * 4))),
                       hashes = SegmentHashes
                         (ptr_add (fst (alloc K (stringArena c) (count + 2 * (n * 4)))) (4 * n))\<rparr>)\<rparr>,
              m2)"
proof -
  let ?data = "fst (alloc K (stringArena c) (count + 2 * (n * 4)))"
  let ?name = "ptr_add ?data (4 * (n * 2))"
  let ?m1 = "memcpy m ?name chars count"
  obtain m2 where l: "segment_loop H chars count n ?data (ptr_add ?data (4 * n)) 0 0 ?m1 = Some m2"
    and b: "bytes m2 = bytes ?m1"
    using segment_loop_returns [of 0 n H chars count ?data "ptr_add ?data (4 * n)" 0 ?m1] assms
    by auto
  have n1: "(of_nat n :: U32) \<noteq> 1"
  proof
    assume "(of_nat n :: U32) = 1"
    then have "unat (of_nat n :: U32) = 1" by simp
    then show False using assms by (simp add: unat_of_nat)
  qed
  have u: "unat (of_nat count :: U32) = count mod 2 ^ 32"
    by (simp add: unat_of_nat)
  have r: "read_bytes m2 ?name (count mod 2 ^ 32) = read_bytes m chars (count mod 2 ^ 32)"
    using read_bytes_cong [OF b] by (simp add: read_bytes_memcpy_prefix)
  have "addQualifiedName3 H K chars count n c m =
        Some (hash_bytes H (read_bytes m chars (count mod 2 ^ 32)),
              c\<lparr>stringArena := snd (alloc K (stringArena c) (count + 2 * (n * 4))),
                identifiers := (identifiers c)(hash_bytes H (read_bytes m chars (count mod 2 ^ 32)) \<mapsto>
                      \<lparr>text_p = ?name,
                       textLength = of_nat count, segmentCount = of_nat n,
                       segments = ?data,
                       hashes = SegmentHashes (ptr_add ?data (4 * n))\<rparr>)\<rparr>,
              m2)"
    using assms l n1 u r
    by (simp add: addQualifiedName3_def addIdentifier_def identifiers_add_def Let_def split_beta)
  with l b show ?thesis by blast
qed

lemma addUnqualifiedName_eq:
  "addUnqualifiedName H chars count c m =
     Some (hash_bytes H (read_bytes m chars count),
           c\<lparr>identifiers := (identifiers c)(hash_bytes H (read_bytes m chars count) \<mapsto>
               \<lparr>text_p = chars, textLength = of_nat count, segmentCount = 1,
                segments = nullptr,
                hashes = SegmentHash (hash_bytes H (read_bytes m chars count))\<rparr>)\<rparr>)"
  by (simp add: addUnqualifiedName_def addIdentifier_def hash_bytes_def identifiers_add_def Let_def)

lemma addQualifiedName3_key:
  assumes "count < 2 ^ 32" "n < 2 ^ 32"
    and "\<not> overlap (fst (alloc K (stringArena c) count), count) (chars, count)"
  shows "map_option fst (addQualifiedName3 H K chars count n c m)
           = Some (hash_bytes H (read_bytes m chars count))"
proof (cases "n \<le> 1")
  case True
  then show ?thesis
    using assms(3) by (simp add: addQualifiedName3_single Let_def read_bytes_memcpy_other)
next
  case False
  then have "1 < n" by simp
  from addQualifiedName3_multi [OF this assms(2), of H chars count K c m] assms(1)
  show ?thesis by auto
qed

subsection \<open>Operator table\<close>

lemma ops_addOps_other: "op \<notin> fst ` set regs \<Longrightarrow> ops (addOps regs c) op = ops c op"
  by (induction regs arbitrary: c) (auto simp: addOp_def)

text \<open>
  C6. For an operator that was never registered (no entry in the table; in particular
  after any sequence of \<open>addOp\<close> calls on other operators, starting from a context
  with no operator), \<open>findOp\<close> returns precedence 9, left-associative. After
  \<open>addOp(id, p, a)\<close>, \<open>findOp(id)\<close> returns exactly \<open>{p, a}\<close>.
\<close>

theorem findOp_default_or_registered:
  "(ops c op = None \<longrightarrow> findOp c op = \<lparr>precedence = 9, associativity = Left\<rparr>)
   \<and> (op \<notin> fst ` set regs \<longrightarrow>
        findOp (addOps regs Context_init) op = \<lparr>precedence = 9, associativity = Left\<rparr>)
   \<and> findOp (addOp op p a c) op = \<lparr>precedence = p, associativity = a\<rparr>"
proof -
  have "op \<notin> fst ` set regs \<Longrightarrow> ops (addOps regs Context_init) op = None"
    by (simp add: ops_addOps_other Context_init_def)
  then show ?thesis
    by (simp add: findOp_def addOp_def)
qed

theorem findOp_default_or_registered_witness:
  "ops Context_init 3 = None
   \<and> findOp Context_init 3 = \<lparr>precedence = 9, associativity = Left\<rparr>
   \<and> (3 :: Id) \<notin> fst ` set [(1, 2 :: U16, Right), (7, 5, Left)]
   \<and> findOp (addOps [(1, 2, Right), (7, 5, Left)] Context_init) 3
       = \<lparr>precedence = 9, associativity = Left\<rparr>
   \<and> findOp (addOp 3 3 Right Context_init) 3 = \<lparr>precedence = 3, associativity = Right\<rparr>"
  using findOp_default_or_registered
          [of Context_init 3 "[(1, 2, Right), (7, 5, Left)]" 3 Right]
  by (simp add: Context_init_def)

subsection \<open>The interning key\<close>

text \<open>
  C4. \<open>addIdentifier\<close> takes as key the stored segment hash when \<open>segmentCount\<close> is
  1, and otherwise a fresh hash over the name text \<open>text[0 .. textLength)\<close>; in the
  second case the key depends neither on the segment arrays of the identifier nor on
  what they hold in memory.
\<close>

theorem addIdentifier_key:
  "(segmentCount ident = 1 \<and> hashes ident = SegmentHash h \<longrightarrow>
      map_option fst (addIdentifier H ident c m) = Some h)
   \<and> (segmentCount ident \<noteq> 1 \<longrightarrow>
      map_option fst (addIdentifier H ident c m)
        = Some (hash_bytes H (read_bytes m (text_p ident) (unat (textLength ident))))
      \<and> map_option fst (addIdentifier H (ident\<lparr>segments := sp, hashes := sh\<rparr>) c
                          (m\<lparr>words := w\<rparr>))
        = map_option fst (addIdentifier H ident c m))"
  by (simp add: addIdentifier_def read_bytes_def)

theorem addIdentifier_key_witness:
  "segmentCount \<lparr>text_p = (Ext 0, 0), textLength = 2, segmentCount = 1,
                  segments = nullptr, hashes = SegmentHash 77\<rparr> = 1
   \<and> map_option fst
        (addIdentifier fnv1a
           \<lparr>text_p = (Ext 0, 0), textLength = 2, segmentCount = 1,
            segments = nullptr, hashes = SegmentHash 77\<rparr>
           Context_init (put_bytes Memory_zero (Ext 0, 0) ''ab'')) = Some 77
   \<and> segmentCount \<lparr>text_p = (Ext 0, 0), textLength = 2, segmentCount = 2,
                    segments = (Ext 1, 0), hashes = SegmentHashes (Ext 1, 8)\<rparr> \<noteq> 1
   \<and> map_option fst
        (addIdentifier fnv1a
           \<lparr>text_p = (Ext 0, 0), textLength = 2, segmentCount = 2,
            segments = (Ext 1, 0), hashes = SegmentHashes (Ext 1, 8)\<rparr>
           Context_init (put_bytes Memory_zero (Ext 0, 0) ''ab''))
       = Some (hash_bytes fnv1a ''ab'')"
  using addIdentifier_key
          [of "\<lparr>text_p = (Ext 0, 0), textLength = 2, segmentCount = 1,
                segments = nullptr, hashes = SegmentHash 77\<rparr>" 77
              fnv1a Context_init "put_bytes Memory_zero (Ext 0, 0) ''ab''"]
        addIdentifier_key
          [of "\<lparr>text_p = (Ext 0, 0), textLength = 2, segmentCount = 2,
                segments = (Ext 1, 0), hashes = SegmentHashes (Ext 1, 8)\<rparr>" 0
              fnv1a Context_init "put_bytes Memory_zero (Ext 0, 0) ''ab''"]
  by (simp add: read_bytes_def put_bytes_def ptr_add_def Memory_zero_def upt_conv_Cons)



subsection \<open>Segment count\<close>

text \<open>
  C8. The two-argument \<open>addQualifiedName\<close> is the three-argument one called with
  the number of \<open>'.'\<close> bytes among the \<open>count\<close> bytes of the name, plus one.
\<close>

theorem addQualifiedName2_infers_segment_count:
  "addQualifiedName2 H K chars count c m =
     addQualifiedName3 H K chars count
       (length (filter (\<lambda>b. b = CHR ''.'') (read_bytes m chars count)) + 1) c m"
  by (simp add: addQualifiedName2_def count_segments_eq)

subsection \<open>Interning through the entry points\<close>

text \<open>
  C3. Interning the same byte sequence \<open>bs\<close> returns the same \<open>Id\<close>, the hash of
  the whole sequence, whatever the entry point (\<open>addUnqualifiedName\<close>,
  \<open>addQualifiedName\<close> with an explicit or an inferred segment count), the context
  and the memory of the call. The length and the segment count are below \<open>2^32\<close>,
  the range of the \<open>U32\<close> fields and of the loop counter, and the caller's buffer
  is not the storage that the arena hands out for the copy.
\<close>

theorem same_id_any_entry_point:
  assumes "read_bytes m chars count = bs" and "read_bytes m' chars' count = bs"
    and "count < 2 ^ 32" and "segCount < 2 ^ 32"
    and "\<not> overlap (fst (alloc K (stringArena c') count), count) (chars', count)"
  shows "map_option fst (addUnqualifiedName H chars count c m) = Some (hash_bytes H bs)
    \<and> map_option fst (addQualifiedName3 H K chars' count segCount c' m') = Some (hash_bytes H bs)
    \<and> (length (filter (\<lambda>b. b = CHR ''.'') bs) + 1 < 2 ^ 32 \<longrightarrow>
         map_option fst (addQualifiedName2 H K chars' count c' m') = Some (hash_bytes H bs))"
proof -
  have 1: "map_option fst (addUnqualifiedName H chars count c m) = Some (hash_bytes H bs)"
    using assms(1) by (simp add: addUnqualifiedName_eq)
  have 2: "map_option fst (addQualifiedName3 H K chars' count n c' m') = Some (hash_bytes H bs)"
    if "n < 2 ^ 32" for n
    using addQualifiedName3_key [OF assms(3) that assms(5), of H m'] assms(2) by simp
  have 3: "map_option fst (addQualifiedName2 H K chars' count c' m') = Some (hash_bytes H bs)"
    if "length (filter (\<lambda>b. b = CHR ''.'') bs) + 1 < 2 ^ 32"
    using 2 [OF that] assms(2) by (simp add: addQualifiedName2_def count_segments_eq)
  from 1 2 [OF assms(4)] 3 show ?thesis by blast
qed

theorem same_id_any_entry_point_witness:
  "read_bytes (put_bytes Memory_zero (Ext 0, 0) ''a.bc.def'') (Ext 0, 0) 8 = ''a.bc.def''
   \<and> read_bytes (put_bytes Memory_zero (Ext 1, 4) ''a.bc.def'') (Ext 1, 4) 8 = ''a.bc.def''
   \<and> (8 :: nat) < 2 ^ 32 \<and> (3 :: nat) < 2 ^ 32
   \<and> \<not> overlap (fst (alloc 64 (stringArena (addOp 1 2 Right Context_init)) 8), 8)
                 ((Ext 1, 4), 8)
   \<and> map_option fst (addUnqualifiedName fnv1a (Ext 0, 0) 8 Context_init
        (put_bytes Memory_zero (Ext 0, 0) ''a.bc.def'')) = Some (hash_bytes fnv1a ''a.bc.def'')
   \<and> map_option fst (addQualifiedName3 fnv1a 64 (Ext 1, 4) 8 3 (addOp 1 2 Right Context_init)
        (put_bytes Memory_zero (Ext 1, 4) ''a.bc.def'')) = Some (hash_bytes fnv1a ''a.bc.def'')
   \<and> map_option fst (addQualifiedName2 fnv1a 64 (Ext 1, 4) 8 (addOp 1 2 Right Context_init)
        (put_bytes Memory_zero (Ext 1, 4) ''a.bc.def'')) = Some (hash_bytes fnv1a ''a.bc.def'')"
proof -
  have h1: "read_bytes (put_bytes Memory_zero (Ext 0, 0) ''a.bc.def'') (Ext 0, 0) 8 = ''a.bc.def''"
    by (rule read_put_abcdef)
  have h2: "read_bytes (put_bytes Memory_zero (Ext 1, 4) ''a.bc.def'') (Ext 1, 4) 8 = ''a.bc.def''"
    by (simp add: read_bytes_def put_bytes_def ptr_add_def upt_conv_Cons)
  have h3: "(8 :: nat) < 2 ^ 32" and h4: "(3 :: nat) < 2 ^ 32" by simp_all
  have h5: "\<not> overlap (fst (alloc 64 (stringArena (addOp 1 2 Right Context_init)) 8), 8)
                 ((Ext 1, 4), 8)"
    by (simp add: overlap_def alloc_def addOp_def Arena_init_def nullptr_def ptr_gt_def
                  ptr_add_def malloc_def Let_def)
  from same_id_any_entry_point [OF h1 h2 h3 h4 h5, where H = fnv1a and c = Context_init] h1 h2 h5
  show ?thesis by simp
qed

subsection \<open>Arena\<close>

lemma alloc_fits:
  "snd (buffer a) + sz \<le> snd (max_p a) \<Longrightarrow>
     alloc K a sz = (buffer a, a\<lparr>buffer := ptr_add (buffer a) sz\<rparr>)"
  by (simp add: alloc_def ptr_gt_def ptr_add_def Let_def)

lemma alloc_new_chunk:
  "snd (max_p a) < snd (buffer a) + sz \<Longrightarrow>
     alloc K a sz = ((Chunk (length (buffers a)), 0),
                     a\<lparr>buffer := (Chunk (length (buffers a)), sz),
                       max_p := (Chunk (length (buffers a)), K),
                       buffers := buffers a @ [(Chunk (length (buffers a)), 0)]\<rparr>)"
  by (simp add: alloc_def ptr_gt_def ptr_add_def malloc_def Let_def)

lemma arena_inv_init: "arena_inv K Arena_init"
  by (simp add: arena_inv_def Arena_init_def nullptr_def)

lemma alloc_inv:
  assumes "arena_inv K a" "sz \<le> K"
  shows "arena_inv K (snd (alloc K a sz))"
    and "in_chunk K (fst (alloc K a sz), sz)"
proof -
  show "arena_inv K (snd (alloc K a sz))"
  proof (cases "snd (buffer a) + sz \<le> snd (max_p a)")
    case True
    with assms show ?thesis
      by (auto simp: alloc_fits arena_inv_def ptr_add_def nullptr_def split: if_splits)
  next
    case False
    then have "snd (max_p a) < snd (buffer a) + sz" by simp
    with assms show ?thesis
      by (simp add: alloc_new_chunk arena_inv_def)
  qed
  show "in_chunk K (fst (alloc K a sz), sz)"
  proof (cases "snd (buffer a) + sz \<le> snd (max_p a)")
    case True
    with assms show ?thesis
      by (auto simp: alloc_fits arena_inv_def in_chunk_def nullptr_def split: if_splits block.splits)
  next
    case False
    then have "snd (max_p a) < snd (buffer a) + sz" by simp
    with assms show ?thesis
      by (simp add: alloc_new_chunk in_chunk_def)
  qed
qed

lemma chunk_total_Cons:
  "chunk_total b (r # rs) = (if fst (fst r) = b then snd r else 0) + chunk_total b rs"
  by (simp add: chunk_total_def)

lemma allocs_invariant:
  assumes "arena_inv K a" "\<forall>s\<in>set szs. s \<le> K"
  shows "arena_inv K (snd (allocs K a szs))
     \<and> (\<forall>r\<in>set (fst (allocs K a szs)). in_chunk K r \<and> later_range a r)
     \<and> sorted_wrt (\<lambda>r s. \<not> overlap r s) (fst (allocs K a szs))
     \<and> (\<forall>b. chunk_total b (fst (allocs K a szs)) \<le> room K a b)"
  using assms
proof (induction szs arbitrary: a)
  case Nil
  then show ?case by (simp add: chunk_total_def)
next
  case (Cons s szs)
  let ?p = "fst (alloc K a s)" and ?a1 = "snd (alloc K a s)"
  let ?rs = "fst (allocs K ?a1 szs)"
  have sK: "s \<le> K" using Cons.prems by simp
  have inv1: "arena_inv K ?a1" and inb: "in_chunk K (?p, s)"
    using alloc_inv [OF Cons.prems(1) sK] by simp_all
  have IH: "arena_inv K (snd (allocs K ?a1 szs))"
     "\<forall>r\<in>set ?rs. in_chunk K r \<and> later_range ?a1 r"
     "sorted_wrt (\<lambda>r s. \<not> overlap r s) ?rs"
     "\<forall>b. chunk_total b ?rs \<le> room K ?a1 b"
    using Cons.IH [OF inv1] Cons.prems(2) by simp_all
  have eq: "allocs K a (s # szs) = ((?p, s) # ?rs, snd (allocs K ?a1 szs))"
    by (simp add: split_beta Let_def)
  have step: "later_range a (?p, s)
      \<and> (\<forall>r. later_range ?a1 r \<longrightarrow> later_range a r \<and> \<not> overlap (?p, s) r)
      \<and> (\<forall>b. (if fst ?p = b then s else 0) + room K ?a1 b \<le> room K a b)"
  proof (cases "snd (buffer a) + s \<le> snd (max_p a)")
    case True
    then show ?thesis
      using Cons.prems(1)
      by (auto simp: alloc_fits later_range_def overlap_def room_def ptr_add_def arena_inv_def
               nullptr_def neq_Nil_conv split: if_splits block.splits)
  next
    case False
    then have "snd (max_p a) < snd (buffer a) + s" by simp
    then show ?thesis
      using Cons.prems(1) sK
      by (auto simp: alloc_new_chunk later_range_def overlap_def room_def arena_inv_def
               nullptr_def neq_Nil_conv split: if_splits block.splits)
  qed
  have a: "arena_inv K (snd (allocs K a (s # szs)))"
    unfolding eq using IH(1) by simp
  have b: "\<forall>r\<in>set (fst (allocs K a (s # szs))). in_chunk K r \<and> later_range a r"
    unfolding eq using IH(2) inb step by auto
  have c: "sorted_wrt (\<lambda>r s. \<not> overlap r s) (fst (allocs K a (s # szs)))"
    unfolding eq using IH(2,3) step by auto
  have d: "\<forall>b. chunk_total b (fst (allocs K a (s # szs))) \<le> room K a b"
  proof
    fix b
    have "chunk_total b (fst (allocs K a (s # szs)))
        = (if fst ?p = b then s else 0) + chunk_total b ?rs"
      unfolding eq by (simp add: chunk_total_Cons)
    also have "\<dots> \<le> (if fst ?p = b then s else 0) + room K ?a1 b"
      using IH(4) by simp
    also have "\<dots> \<le> room K a b" using step by blast
    finally show "chunk_total b (fst (allocs K a (s # szs))) \<le> room K a b" .
  qed
  from a b c d show ?case by blast
qed

lemma allocs_sizes: "map snd (fst (allocs K a szs)) = szs"
  by (induction szs arbitrary: a) (simp_all add: split_beta Let_def)

lemma room_init: "room K Arena_init b \<le> K"
  by (simp add: room_def Arena_init_def nullptr_def split: block.splits)

text \<open>
  C2, as amended. On a new arena, for every sequence of calls of \<open>alloc\<close> whose sizes
  are each at most \<open>kChunkSize\<close>: the call number \<open>i\<close> returns a range of the
  size it asked for, the returned ranges are pairwise disjoint, each lies inside the
  \<open>kChunkSize\<close> bytes of one chunk, and the bytes handed out from any one chunk
  total at most \<open>kChunkSize\<close>.
\<close>

theorem allocs_disjoint_within_chunks:
  assumes "\<forall>s\<in>set szs. s \<le> K"
  shows "map snd (fst (allocs K Arena_init szs)) = szs
     \<and> (\<forall>i j. i < j \<and> j < length szs \<longrightarrow>
           range_bytes (fst (allocs K Arena_init szs) ! i)
             \<inter> range_bytes (fst (allocs K Arena_init szs) ! j) = {})
     \<and> (\<forall>r\<in>set (fst (allocs K Arena_init szs)). in_chunk K r)
     \<and> (\<forall>b. chunk_total b (fst (allocs K Arena_init szs)) \<le> K)"
proof -
  let ?rs = "fst (allocs K Arena_init szs)"
  note inv = allocs_invariant [OF arena_inv_init assms, of ]
  have len: "length ?rs = length szs"
    using allocs_sizes [of K Arena_init szs] by (metis length_map)
  have dis: "range_bytes (?rs ! i) \<inter> range_bytes (?rs ! j) = {}"
    if "i < j" "j < length szs" for i j
  proof -
    have "\<not> overlap (?rs ! i) (?rs ! j)"
      using inv that len by (simp add: sorted_wrt_iff_nth_less)
    then show ?thesis by (simp add: overlap_iff_range_bytes)
  qed
  have tot: "chunk_total b ?rs \<le> K" for b
    using inv room_init [of K b] by (meson order_trans)
  from inv dis tot allocs_sizes [of K Arena_init szs] show ?thesis by blast
qed

lemma allocs_example:
  "fst (allocs 16 Arena_init [0, 5, 11, 1, 16, 0])
     = [((NullBlk, 0), 0), ((Chunk 0, 0), 5), ((Chunk 0, 5), 11),
        ((Chunk 1, 0), 1), ((Chunk 2, 0), 16), ((Chunk 2, 16), 0)]"
  by (simp add: alloc_def Arena_init_def nullptr_def ptr_gt_def ptr_add_def malloc_def Let_def)

theorem allocs_disjoint_within_chunks_witness:
  "list_all (\<lambda>s. s \<le> (16 :: nat)) [0, 5, 11, 1, 16, 0]
   \<and> fst (allocs 16 Arena_init [0, 5, 11, 1, 16, 0])
       = [((NullBlk, 0), 0), ((Chunk 0, 0), 5), ((Chunk 0, 5), 11),
          ((Chunk 1, 0), 1), ((Chunk 2, 0), 16), ((Chunk 2, 16), 0)]
   \<and> range_bytes ((Chunk 0, 0), 5) \<inter> range_bytes ((Chunk 0, 5), 11) = {}
   \<and> in_chunk 16 ((Chunk 2, 0), 16)
   \<and> chunk_total (Chunk 0)
        [((NullBlk, 0), 0), ((Chunk 0, 0), 5), ((Chunk 0, 5), 11),
         ((Chunk 1, 0), 1), ((Chunk 2, 0), 16), ((Chunk 2, 16), 0)] \<le> 16"
proof -
  have h: "\<forall>s\<in>set [0, 5, 11, 1, 16, 0]. s \<le> (16 :: nat)" by simp
  note t = allocs_disjoint_within_chunks [OF h, unfolded allocs_example]
  from t have d: "range_bytes ((Chunk 0, 0), 5) \<inter> range_bytes ((Chunk 0, 5), 11) = {}"
    by (elim conjE allE [of _ 1] allE [of _ "2 :: nat"]) simp
  from t have i: "in_chunk 16 ((Chunk 2, 0), 16)"
    by simp
  from t have c: "chunk_total (Chunk 0)
        [((NullBlk, 0), 0), ((Chunk 0, 0), 5), ((Chunk 0, 5), 11),
         ((Chunk 1, 0), 1), ((Chunk 2, 0), 16), ((Chunk 2, 16), 0)] \<le> 16"
    by blast
  have l: "list_all (\<lambda>s. s \<le> (16 :: nat)) [0, 5, 11, 1, 16, 0]" by simp
  from l d i c allocs_example show ?thesis by blast
qed

text \<open>
  C2, as stated, fails for a request larger than \<open>kChunkSize\<close>. With
  \<open>kChunkSize = 16\<close>, a request of 17 bytes gets a new chunk of 16 bytes, not one
  that satisfies the request: the returned range starts at the chunk's first byte and
  runs past \<open>max\<close>, and the bytes handed out from that chunk exceed
  \<open>kChunkSize\<close>.
\<close>

theorem alloc_oversized_counterexample:
  "allocs 16 Arena_init [17]
     = ([((Chunk 0, 0), 17)],
        \<lparr>buffer = (Chunk 0, 17), max_p = (Chunk 0, 16), buffers = [(Chunk 0, 0)]\<rparr>)
   \<and> \<not> in_chunk 16 ((Chunk 0, 0), 17)
   \<and> \<not> chunk_total (Chunk 0) (fst (allocs 16 Arena_init [17])) \<le> 16"
  by (simp add: alloc_def Arena_init_def nullptr_def ptr_gt_def ptr_add_def malloc_def Let_def
                in_chunk_def chunk_total_def)

subsection \<open>Segments of a qualified name\<close>

lemma scan_segment_eq:
  "p \<le> count \<Longrightarrow>
   scan_segment H m chars count p h =
     (p + length (takeWhile (\<lambda>b. b \<noteq> CHR ''.'') (drop p (read_bytes m chars count))),
      fold (\<lambda>b h. addByte H h b)
        (takeWhile (\<lambda>b. b \<noteq> CHR ''.'') (drop p (read_bytes m chars count))) h)"
proof (induction H m chars count p h rule: scan_segment.induct)
  case (1 H m chars count p h)
  show ?case
  proof (cases "p < count")
    case True
    then have d: "drop p (read_bytes m chars count)
        = bytes m (ptr_add chars p) # drop (p + 1) (read_bytes m chars count)"
      by (simp add: Cons_nth_drop_Suc [symmetric] nth_read_bytes)
    show ?thesis
    proof (cases "bytes m (ptr_add chars p) = CHR ''.''")
      case True
      then show ?thesis using d by (subst scan_segment.simps) simp
    next
      case False
      with \<open>p < count\<close> have "scan_segment H m chars count p h
          = scan_segment H m chars count (p + 1) (addByte H h (bytes m (ptr_add chars p)))"
        by (subst scan_segment.simps) simp
      also have "\<dots> = (p + 1 + length (takeWhile (\<lambda>b. b \<noteq> CHR ''.'')
                               (drop (p + 1) (read_bytes m chars count))),
          fold (\<lambda>b h. addByte H h b)
            (takeWhile (\<lambda>b. b \<noteq> CHR ''.'') (drop (p + 1) (read_bytes m chars count)))
            (addByte H h (bytes m (ptr_add chars p))))"
        using \<open>p < count\<close> False by (intro "1.IH") auto
      finally show ?thesis using d False by simp
    qed
  next
    case False
    with 1 have "p = count" by simp
    then show ?thesis by (subst scan_segment.simps) simp
  qed
qed

lemma takeWhile_stuck:
  "takeWhile P (drop (length (takeWhile P xs)) xs) = []"
  by (induction xs) auto

lemma takeWhile_drop_stuck:
  "takeWhile P (drop (p + length (takeWhile P (drop p xs))) xs) = []"
  using takeWhile_stuck [of P "drop p xs"] by (simp add: add.commute)

lemma length_takeWhile_drop_le:
  "p \<le> length xs \<Longrightarrow> p + length (takeWhile P (drop p xs)) \<le> length xs"
  using length_takeWhile_le [of P "drop p xs"] by simp

lemma segment_loop_stuck:
  assumes "unat i \<le> n" and "n < 2 ^ 32" and "p \<le> count"
    and "takeWhile (\<lambda>b. b \<noteq> CHR ''.'') (drop p (read_bytes m chars count)) = []"
  shows "\<exists>m2. segment_loop H chars count n segs (ptr_add segs (4 * n)) i p m = Some m2
     \<and> bytes m2 = bytes m
     \<and> (\<forall>j<n. words m2 (ptr_add segs (4 * j))
            = (if unat i \<le> j then of_nat p else words m (ptr_add segs (4 * j))))
     \<and> (\<forall>j<n. words m2 (ptr_add (ptr_add segs (4 * n)) (4 * j))
            = (if unat i \<le> j then get H (fresh H)
               else words m (ptr_add (ptr_add segs (4 * n)) (4 * j))))"
  using assms
proof (induction "n - unat i" arbitrary: i m)
  case 0
  then have "\<not> unat i < n" by simp
  then show ?case by (subst segment_loop.simps) simp
next
  case (Suc k)
  then have lt: "unat i < n" by simp
  with Suc.prems have "unat i + 1 < 2 ^ 32" by simp
  then have u: "unat (i + 1) = unat i + 1"
    by (simp add: unat_word_ariths)
  let ?m1 = "store_word m segs (unat i) (of_nat p)"
  let ?m2 = "store_word ?m1 (ptr_add segs (4 * n)) (unat i) (get H (fresh H))"
  have rb: "read_bytes ?m1 chars count = read_bytes m chars count"
    "read_bytes ?m2 chars count = read_bytes m chars count"
    by (simp_all add: read_bytes_def)
  have sc: "scan_segment H ?m1 chars count p (fresh H) = (p, fresh H)"
    using Suc.prems(3,4) by (simp add: scan_segment_eq rb)
  have "\<exists>m3. segment_loop H chars count n segs (ptr_add segs (4 * n)) (i + 1) p ?m2 = Some m3
     \<and> bytes m3 = bytes ?m2
     \<and> (\<forall>j<n. words m3 (ptr_add segs (4 * j))
            = (if unat (i + 1) \<le> j then of_nat p else words ?m2 (ptr_add segs (4 * j))))
     \<and> (\<forall>j<n. words m3 (ptr_add (ptr_add segs (4 * n)) (4 * j))
            = (if unat (i + 1) \<le> j then get H (fresh H)
               else words ?m2 (ptr_add (ptr_add segs (4 * n)) (4 * j))))"
    using Suc.hyps(2) lt u Suc.prems rb by (intro Suc.hyps(1)) auto
  then obtain m3 where
    l: "segment_loop H chars count n segs (ptr_add segs (4 * n)) (i + 1) p ?m2 = Some m3"
    and b: "bytes m3 = bytes ?m2"
    and w1: "\<forall>j<n. words m3 (ptr_add segs (4 * j))
            = (if unat (i + 1) \<le> j then of_nat p else words ?m2 (ptr_add segs (4 * j)))"
    and w2: "\<forall>j<n. words m3 (ptr_add (ptr_add segs (4 * n)) (4 * j))
            = (if unat (i + 1) \<le> j then get H (fresh H)
               else words ?m2 (ptr_add (ptr_add segs (4 * n)) (4 * j)))"
    by blast
  have eq: "segment_loop H chars count n segs (ptr_add segs (4 * n)) i p m = Some m3"
    using lt sc l by (subst segment_loop.simps) (simp add: Let_def)
  have s1: "\<forall>j<n. words m3 (ptr_add segs (4 * j))
            = (if unat i \<le> j then of_nat p else words m (ptr_add segs (4 * j)))"
    using w1 u lt by (auto simp: store_word_def ptr_add_def)
  have s2: "\<forall>j<n. words m3 (ptr_add (ptr_add segs (4 * n)) (4 * j))
            = (if unat i \<le> j then get H (fresh H)
               else words m (ptr_add (ptr_add segs (4 * n)) (4 * j)))"
    using w2 u lt by (auto simp: store_word_def ptr_add_def)
  from eq b s1 s2 show ?case by simp
qed

lemma segment_loop_from_start:
  assumes "0 < n" and "n < 2 ^ 32"
  shows "\<exists>m2. segment_loop H chars count n segs (ptr_add segs (4 * n)) 0 0 m = Some m2
     \<and> bytes m2 = bytes m
     \<and> read_words m2 segs n
         = 0 # replicate (n - 1)
                 (of_nat (length (takeWhile (\<lambda>b. b \<noteq> CHR ''.'') (read_bytes m chars count))))
     \<and> read_words m2 (ptr_add segs (4 * n)) n
         = hash_each H (takeWhile (\<lambda>b. b \<noteq> CHR ''.'') (read_bytes m chars count))
           # replicate (n - 1) (hash_each H [])"
proof -
  let ?bs = "read_bytes m chars count"
  let ?seg = "takeWhile (\<lambda>b. b \<noteq> CHR ''.'') ?bs"
  let ?d = "length ?seg"
  let ?hs = "ptr_add segs (4 * n)"
  let ?m1 = "store_word m segs 0 0"
  let ?h0 = "fold (\<lambda>b h. addByte H h b) ?seg (fresh H)"
  let ?m2 = "store_word ?m1 ?hs 0 (get H ?h0)"
  have rb: "read_bytes ?m1 chars count = ?bs" "read_bytes ?m2 chars count = ?bs"
    by (simp_all add: read_bytes_def)
  have sc: "scan_segment H ?m1 chars count 0 (fresh H) = (?d, ?h0)"
    by (simp add: scan_segment_eq rb)
  have dle: "?d \<le> count"
    using length_takeWhile_le [of _ ?bs] by simp
  have stuck: "takeWhile (\<lambda>b. b \<noteq> CHR ''.'') (drop ?d (read_bytes ?m2 chars count)) = []"
    by (simp add: rb takeWhile_stuck)
  have u1: "unat (1 :: U32) \<le> n" using assms(1) by simp
  from segment_loop_stuck [OF u1 assms(2) dle stuck, of H segs]
  obtain m3 where
    l: "segment_loop H chars count n segs ?hs 1 ?d ?m2 = Some m3"
    and b: "bytes m3 = bytes ?m2"
    and w1: "\<forall>j<n. words m3 (ptr_add segs (4 * j))
            = (if 1 \<le> j then of_nat ?d else words ?m2 (ptr_add segs (4 * j)))"
    and w2: "\<forall>j<n. words m3 (ptr_add ?hs (4 * j))
            = (if 1 \<le> j then get H (fresh H) else words ?m2 (ptr_add ?hs (4 * j)))"
    by auto
  have eq: "segment_loop H chars count n segs ?hs 0 0 m = Some m3"
    using assms(1) sc l by (subst segment_loop.simps) (simp add: Let_def)
  have a1: "words m3 (ptr_add segs (4 * j)) = (if j = 0 then 0 else of_nat ?d)"
    if "j < n" for j
    using w1 [rule_format, OF that] assms(1)
    by (cases j) (simp_all add: store_word_def ptr_add_def prod_eq_iff)
  have a2: "words m3 (ptr_add ?hs (4 * j))
      = (if j = 0 then hash_each H ?seg else hash_each H [])"
    if "j < n" for j
    using w2 [rule_format, OF that] assms(1)
    by (cases j) (simp_all add: store_word_def ptr_add_def hash_each_def prod_eq_iff)
  have r1: "read_words m3 segs n = 0 # replicate (n - 1) (of_nat ?d)"
    using assms(1) a1
    by (intro nth_equalityI) (simp_all add: read_words_def nth_Cons')
  have r2: "read_words m3 ?hs n = hash_each H ?seg # replicate (n - 1) (hash_each H [])"
    using assms(1) a2
    by (intro nth_equalityI) (simp_all add: read_words_def nth_Cons')
  from eq b r1 r2 show ?thesis by simp
qed

text \<open>
  What the loop stores, for every name and every segment count \<open>n\<close> from 2 up:
  offset 0 and the hash of the bytes before the first \<open>'.'\<close> for segment 0, and
  for each later segment the position where that scan stopped (the first \<open>'.'\<close>,
  or \<open>count\<close>) and the hash of no bytes.
\<close>

lemma addQualifiedName3_segments:
  assumes "1 < n" and "n < 2 ^ 32"
    and "\<not> overlap (ptr_add (fst (alloc K (stringArena c) (count + 2 * (n * 4)))) (4 * (n * 2)),
                      count) (chars, count)"
  shows "\<exists>i c1 m2 ident.
     addQualifiedName3 H K chars count n c m = Some (i, c1, m2)
     \<and> find_id c1 i = Some ident
     \<and> segmentCount ident = of_nat n
     \<and> segments ident = fst (alloc K (stringArena c) (count + 2 * (n * 4)))
     \<and> hashes ident
         = SegmentHashes (ptr_add (fst (alloc K (stringArena c) (count + 2 * (n * 4)))) (4 * n))
     \<and> read_words m2 (fst (alloc K (stringArena c) (count + 2 * (n * 4)))) n
         = 0 # replicate (n - 1)
                 (of_nat (length (takeWhile (\<lambda>b. b \<noteq> CHR ''.'') (read_bytes m chars count))))
     \<and> read_words m2 (ptr_add (fst (alloc K (stringArena c) (count + 2 * (n * 4)))) (4 * n)) n
         = hash_each H (takeWhile (\<lambda>b. b \<noteq> CHR ''.'') (read_bytes m chars count))
           # replicate (n - 1) (hash_each H [])"
proof -
  let ?data = "fst (alloc K (stringArena c) (count + 2 * (n * 4)))"
  let ?name = "ptr_add ?data (4 * (n * 2))"
  let ?m1 = "memcpy m ?name chars count"
  have rb: "read_bytes ?m1 chars count = read_bytes m chars count"
    using assms(3) by (rule read_bytes_memcpy_other)
  have n0: "0 < n" using assms(1) by simp
  from segment_loop_from_start [OF n0 assms(2), of H chars count ?data ?m1, unfolded rb]
  obtain m2 where l: "segment_loop H chars count n ?data (ptr_add ?data (4 * n)) 0 0 ?m1 = Some m2"
    and r1: "read_words m2 ?data n
         = 0 # replicate (n - 1)
                 (of_nat (length (takeWhile (\<lambda>b. b \<noteq> CHR ''.'') (read_bytes m chars count))))"
    and r2: "read_words m2 (ptr_add ?data (4 * n)) n
         = hash_each H (takeWhile (\<lambda>b. b \<noteq> CHR ''.'') (read_bytes m chars count))
           # replicate (n - 1) (hash_each H [])"
    by blast
  from addQualifiedName3_multi [OF assms(1,2), of H chars count K c m] l
  obtain i c1 where res: "addQualifiedName3 H K chars count n c m = Some (i, c1, m2)"
    and c1: "c1 = c\<lparr>stringArena := snd (alloc K (stringArena c) (count + 2 * (n * 4))),
                identifiers := (identifiers c)(i \<mapsto>
                      \<lparr>text_p = ?name, textLength = of_nat count, segmentCount = of_nat n,
                       segments = ?data,
                       hashes = SegmentHashes (ptr_add ?data (4 * n))\<rparr>)\<rparr>"
    by auto
  have f: "find_id c1 i = Some \<lparr>text_p = ?name, textLength = of_nat count,
                       segmentCount = of_nat n, segments = ?data,
                       hashes = SegmentHashes (ptr_add ?data (4 * n))\<rparr>"
    by (simp add: c1 find_id_def)
  from res f r1 r2 show ?thesis
    by (intro exI [of _ i] exI [of _ c1] exI [of _ m2]
              exI [of _ "\<lparr>text_p = ?name, textLength = of_nat count,
                       segmentCount = of_nat n, segments = ?data,
                       hashes = SegmentHashes (ptr_add ?data (4 * n))\<rparr>"]) simp
qed

lemma loop_abc:
  "\<exists>m2. segment_loop H (Ext 0, 0) 8 3 (Chunk 0, 0) (Chunk 0, 12) 0 0
           (memcpy (put_bytes Memory_zero (Ext 0, 0) ''a.bc.def'') (Chunk 0, 24) (Ext 0, 0) 8) = Some m2
     \<and> read_words m2 (Chunk 0, 0) 3 = [0, 1, 1]
     \<and> read_words m2 (Chunk 0, 12) 3 = [hash_each H ''a'', hash_each H '''', hash_each H '''']"
  apply (subst segment_loop.simps)
  apply (simp add: Let_def scan_segment.simps store_word_def memcpy_def put_bytes_def ptr_add_def Memory_zero_def)
  apply (subst segment_loop.simps)
  apply (simp add: Let_def scan_segment.simps store_word_def memcpy_def put_bytes_def ptr_add_def Memory_zero_def)
  apply (subst segment_loop.simps)
  apply (simp add: Let_def scan_segment.simps store_word_def memcpy_def put_bytes_def ptr_add_def Memory_zero_def)
  apply (subst segment_loop.simps)
  apply (simp add: Let_def scan_segment.simps store_word_def memcpy_def put_bytes_def ptr_add_def Memory_zero_def
     read_words_def hash_each_def upt_conv_Cons)
  done

text \<open>
  C1 does not hold of the code. For the name \<open>a.bc.def\<close>, interned by the
  two-argument \<open>addQualifiedName\<close> in a new context, the stored segment count is 3
  but the stored offsets are \<open>{0, 1, 1}\<close>, not \<open>{0, 2, 5}\<close>: the inner loop
  stops at the first \<open>'.'\<close> and nothing steps over it, so segment 0 gets the hash
  of \<open>a\<close>, and the segments after it start at that \<open>'.'\<close> and get the hash of
  no byte at all.
\<close>

theorem addQualifiedName_a_bc_def:
  "\<exists>i c m1 ident hs.
     addQualifiedName2 H 64 (Ext 0, 0) 8 Context_init
        (put_bytes Memory_zero (Ext 0, 0) ''a.bc.def'') = Some (i, c, m1)
     \<and> find_id c i = Some ident
     \<and> segmentCount ident = 3
     \<and> hashes ident = SegmentHashes hs
     \<and> read_words m1 (segments ident) 3 = [0, 1, 1]
     \<and> read_words m1 hs 3 = [hash_each H ''a'', hash_each H '''', hash_each H '''']"
proof -
  let ?m = "put_bytes Memory_zero (Ext 0, 0) ''a.bc.def''"
  have cs: "count_segments ?m (Ext 0, 0) 8 0 1 = 3"
    by (simp add: count_segments_eq read_put_abcdef)
  obtain m2 where l: "segment_loop H (Ext 0, 0) 8 3 (Chunk 0, 0) (Chunk 0, 12) 0 0
           (memcpy ?m (Chunk 0, 24) (Ext 0, 0) 8) = Some m2"
     and w: "read_words m2 (Chunk 0, 0) 3 = [0, 1, 1]"
        "read_words m2 (Chunk 0, 12) 3 = [hash_each H ''a'', hash_each H '''', hash_each H '''']"
    using loop_abc [of H] by blast
  have "addQualifiedName2 H 64 (Ext 0, 0) 8 Context_init ?m
      = addQualifiedName3 H 64 (Ext 0, 0) 8 3 Context_init ?m"
    by (simp only: addQualifiedName2_def cs Let_def)
  moreover have "\<exists>i c. addQualifiedName3 H 64 (Ext 0, 0) 8 3 Context_init ?m = Some (i, c, m2)
      \<and> find_id c i = Some \<lparr>text_p = (Chunk 0, 24), textLength = 8, segmentCount = 3,
            segments = (Chunk 0, 0), hashes = SegmentHashes (Chunk 0, 12)\<rparr>"
    using l
    by (simp add: addQualifiedName3_def alloc_init_32 ptr_add_def addIdentifier_def
                  find_id_def identifiers_add_def Let_def)
  ultimately show ?thesis using w by auto
qed

subsection \<open>Segment count zero\<close>

text \<open>
  C10. \<open>addQualifiedName\<close> with segment count 0 returns what it returns with
  segment count 1: the key is the hash of the \<open>count\<close> bytes at \<open>chars\<close>, the
  stored identifier has \<open>segmentCount\<close> 1, a null \<open>segments\<close> pointer, the
  segment hash in place of a hash array, and its text is the arena's copy of the name.
  The hash is taken after the copy; it is the hash of the name as the caller passed it
  when the caller's buffer is not the storage handed out for the copy.
\<close>

theorem addQualifiedName3_zero_segments:
  "addQualifiedName3 H K chars count 0 c m = addQualifiedName3 H K chars count 1 c m
   \<and> (let text = fst (alloc K (stringArena c) count);
           a = snd (alloc K (stringArena c) count);
           m1 = memcpy m text chars count;
           h = hash_bytes H (read_bytes m1 chars count)
       in addQualifiedName3 H K chars count 0 c m
            = Some (h, c\<lparr>stringArena := a,
                        identifiers := (identifiers c)(h \<mapsto>
                          \<lparr>text_p = text, textLength = of_nat count, segmentCount = 1,
                           segments = nullptr, hashes = SegmentHash h\<rparr>)\<rparr>, m1)
          \<and> read_bytes m1 text count = read_bytes m chars count
          \<and> (\<not> overlap (text, count) (chars, count) \<longrightarrow>
                h = hash_bytes H (read_bytes m chars count)))"
  by (simp add: addQualifiedName3_single Let_def read_bytes_memcpy_dst read_bytes_memcpy_other)

theorem addQualifiedName3_zero_segments_witness:
  "\<not> overlap (fst (alloc 64 (stringArena Context_init) 3), 3) ((Ext 0, 0), 3)
   \<and> addQualifiedName3 fnv1a 64 (Ext 0, 0) 3 0 Context_init
        (put_bytes Memory_zero (Ext 0, 0) ''abc'')
      = Some (hash_bytes fnv1a ''abc'',
              Context_init\<lparr>stringArena :=
                  \<lparr>buffer = (Chunk 0, 3), max_p = (Chunk 0, 64), buffers = [(Chunk 0, 0)]\<rparr>,
                identifiers := [hash_bytes fnv1a ''abc'' \<mapsto>
                  \<lparr>text_p = (Chunk 0, 0), textLength = 3, segmentCount = 1,
                   segments = nullptr, hashes = SegmentHash (hash_bytes fnv1a ''abc'')\<rparr>]\<rparr>,
              memcpy (put_bytes Memory_zero (Ext 0, 0) ''abc'') (Chunk 0, 0) (Ext 0, 0) 3)
   \<and> read_bytes (memcpy (put_bytes Memory_zero (Ext 0, 0) ''abc'') (Chunk 0, 0) (Ext 0, 0) 3)
        (Chunk 0, 0) 3 = ''abc''"
proof -
  have h: "\<not> overlap (fst (alloc 64 (stringArena Context_init) 3), 3) ((Ext 0, 0), 3)"
    by (simp add: alloc_init_3 overlap_def)
  show ?thesis
    using h addQualifiedName3_zero_segments
            [of fnv1a 64 "(Ext 0, 0)" 3 Context_init "put_bytes Memory_zero (Ext 0, 0) ''abc''"]
    by (auto simp: Let_def alloc_init_3 read_put_abc read_bytes_memcpy_other overlap_def)
qed

subsection \<open>Text ownership\<close>

lemma read_bytes_agree:
  "(\<forall>q\<in>range_bytes (p, n). bytes m2 q = bytes m1 q) \<Longrightarrow> read_bytes m2 p n = read_bytes m1 p n"
  by (simp add: read_bytes_def range_bytes_def ptr_add_def)

lemma range_bytes_sub:
  "range_bytes (ptr_add d k, n) \<subseteq> range_bytes (d, n + k)"
  by (auto simp: range_bytes_def ptr_add_def)

lemma allocs_append:
  "allocs K a (xs @ ys)
     = (fst (allocs K a xs) @ fst (allocs K (snd (allocs K a xs)) ys),
        snd (allocs K (snd (allocs K a xs)) ys))"
  by (induction xs arbitrary: a) (simp_all add: split_beta Let_def)

lemma arena_chunks_ok_init: "arena_chunks_ok Arena_init"
  by (simp add: arena_chunks_ok_def Arena_init_def)

lemma alloc_chunks_ok: "arena_chunks_ok a \<Longrightarrow> arena_chunks_ok (snd (alloc K a sz))"
  by (simp add: alloc_def arena_chunks_ok_def malloc_def Let_def)

lemma allocs_chunks_ok: "arena_chunks_ok a \<Longrightarrow> arena_chunks_ok (snd (allocs K a szs))"
  by (induction szs arbitrary: a) (simp_all add: split_beta Let_def alloc_chunks_ok)

lemma alloc_owned:
  assumes "arena_inv K a" and "arena_chunks_ok a" and "0 < sz"
  shows "(fst (fst (alloc K a sz)), 0) \<in> set (buffers (snd (alloc K a sz)))"
proof (cases "snd (buffer a) + sz \<le> snd (max_p a)")
  case True
  with assms(1,3) have ne: "buffers a \<noteq> []"
    by (auto simp: arena_inv_def nullptr_def)
  then have "fst (buffer a) = Chunk (length (buffers a) - 1)"
    using assms(1) by (auto simp: arena_inv_def)
  moreover have "(Chunk (length (buffers a) - 1), 0) \<in> set (buffers a)"
  proof -
    have st: "set (buffers a) = (\<lambda>k. (Chunk k, 0)) ` {0..<length (buffers a)}"
      using assms(2) unfolding arena_chunks_ok_def by (metis set_map set_upt)
    have "length (buffers a) - 1 \<in> {0..<length (buffers a)}" using ne by simp
    then show ?thesis unfolding st by (rule imageI)
  qed
  ultimately show ?thesis using True by (simp add: alloc_fits)
next
  case False
  then have "snd (max_p a) < snd (buffer a) + sz" by simp
  then show ?thesis by (simp add: alloc_new_chunk)
qed

lemma alloc_after_history:
  assumes "\<forall>s\<in>set szs. s \<le> K" and "sz \<le> K" and "\<forall>s\<in>set later. s \<le> K"
  shows "snd (alloc K (snd (allocs K Arena_init szs)) sz) = snd (allocs K Arena_init (szs @ [sz]))"
    and "in_chunk K (fst (alloc K (snd (allocs K Arena_init szs)) sz), sz)"
    and "0 < sz \<Longrightarrow>
           (fst (fst (alloc K (snd (allocs K Arena_init szs)) sz)), 0)
             \<in> set (buffers (snd (alloc K (snd (allocs K Arena_init szs)) sz)))"
    and "\<forall>r\<in>set (fst (allocs K Arena_init szs)).
           range_bytes r \<inter> range_bytes (fst (alloc K (snd (allocs K Arena_init szs)) sz), sz) = {}"
    and "\<forall>r\<in>set (fst (allocs K (snd (alloc K (snd (allocs K Arena_init szs)) sz)) later)).
           range_bytes r \<inter> range_bytes (fst (alloc K (snd (allocs K Arena_init szs)) sz), sz) = {}"
proof -
  let ?a = "snd (allocs K Arena_init szs)"
  let ?rs = "fst (allocs K Arena_init szs)"
  let ?d = "fst (alloc K ?a sz)"
  let ?a1 = "snd (alloc K ?a sz)"
  let ?ls = "fst (allocs K ?a1 later)"
  have one: "allocs K ?a [sz] = ([(?d, sz)], ?a1)"
    by (simp add: split_beta Let_def)
  show s: "?a1 = snd (allocs K Arena_init (szs @ [sz]))"
    by (simp add: allocs_append split_beta Let_def)
  have all: "\<forall>s\<in>set (szs @ [sz] @ later). s \<le> K"
    using assms by auto
  have full: "fst (allocs K Arena_init (szs @ [sz] @ later)) = ?rs @ [(?d, sz)] @ ?ls"
    by (simp add: allocs_append split_beta Let_def)
  note inv = allocs_invariant [OF arena_inv_init all]
  from inv have inc: "\<forall>r\<in>set (?rs @ [(?d, sz)] @ ?ls). in_chunk K r"
    and srt: "sorted_wrt (\<lambda>r s. \<not> overlap r s) (?rs @ [(?d, sz)] @ ?ls)"
    unfolding full by blast+
  from inc show "in_chunk K (?d, sz)" by simp
  from srt show "\<forall>r\<in>set ?rs. range_bytes r \<inter> range_bytes (?d, sz) = {}"
    by (auto simp: sorted_wrt_append overlap_iff_range_bytes)
  from srt show "\<forall>r\<in>set ?ls. range_bytes r \<inter> range_bytes (?d, sz) = {}"
    by (auto simp: sorted_wrt_append overlap_iff_range_bytes)
  have ia: "arena_inv K ?a"
    using allocs_invariant [OF arena_inv_init assms(1)] by blast
  have ca: "arena_chunks_ok ?a"
    by (simp add: allocs_chunks_ok arena_chunks_ok_init)
  show "(fst ?d, 0) \<in> set (buffers ?a1)" if "0 < sz"
    using alloc_owned [OF ia ca that] .
qed

lemma read_put_bytes_same:
  "length new = n \<Longrightarrow> read_bytes (put_bytes m p new) p n = new"
  by (auto simp: read_bytes_def put_bytes_def ptr_add_def intro: nth_equalityI)

lemma read_put_bytes_other_block:
  "fst p \<noteq> fst q \<Longrightarrow> read_bytes (put_bytes m p new) q n = read_bytes m q n"
  by (simp add: read_bytes_def put_bytes_def ptr_add_def)

lemma in_chunk_not_Ext: "in_chunk K (d, sz) \<Longrightarrow> fst d \<noteq> Ext b"
  by (auto simp: in_chunk_def split: block.splits)

lemma addQualifiedName3_text:
  assumes "segCount < 2 ^ 32"
    and sz: "sz = (if segCount \<le> 1 then count else count + 2 * (segCount * 4))"
    and data: "data = fst (alloc K (stringArena c) sz)"
    and name: "name = (if segCount \<le> 1 then data else ptr_add data (4 * (segCount * 2)))"
  shows "\<exists>i c1 m1 ident.
             addQualifiedName3 H K chars count segCount c m = Some (i, c1, m1)
             \<and> find_id c1 i = Some ident \<and> text_p ident = name
             \<and> stringArena c1 = snd (alloc K (stringArena c) sz)
             \<and> range_bytes (name, count) \<subseteq> range_bytes (data, sz)
             \<and> fst name = fst data
             \<and> read_bytes m1 name count = read_bytes m chars count"
proof (cases "segCount \<le> 1")
  case True
  let ?m1 = "memcpy m data chars count"
  have r: "read_bytes ?m1 data count = read_bytes m chars count"
    by (rule read_bytes_memcpy_dst)
  with True sz data name show ?thesis
    by (simp add: addQualifiedName3_single Let_def find_id_def)
next
  case False
  then have n1: "1 < segCount" by simp
  from addQualifiedName3_multi [OF n1 assms(1), of H chars count K c m]
  obtain m2 i c1 where
    b: "bytes m2 = bytes (memcpy m name chars count)"
    and res: "addQualifiedName3 H K chars count segCount c m = Some (i, c1, m2)"
    and c1: "c1 = c\<lparr>stringArena := snd (alloc K (stringArena c) sz),
            identifiers := (identifiers c)(i \<mapsto>
                  \<lparr>text_p = name,
                   textLength = of_nat count, segmentCount = of_nat segCount,
                   segments = data,
                   hashes = SegmentHashes (ptr_add data (4 * segCount))\<rparr>)\<rparr>"
    using False sz data name by auto
  have r: "read_bytes m2 name count = read_bytes m chars count"
    using read_bytes_cong [OF b] by (simp add: read_bytes_memcpy_dst)
  have sub: "range_bytes (name, count) \<subseteq> range_bytes (data, sz)"
    using range_bytes_sub [of data "4 * (segCount * 2)" count] False sz name
    by (simp add: mult.commute)
  have blk: "fst name = fst data"
    using False name by (simp add: ptr_add_def)
  have f: "find_id c1 i = Some \<lparr>text_p = name,
                   textLength = of_nat count, segmentCount = of_nat segCount,
                   segments = data,
                   hashes = SegmentHashes (ptr_add data (4 * segCount))\<rparr>"
    by (simp add: c1 find_id_def)
  have s: "stringArena c1 = snd (alloc K (stringArena c) sz)"
    by (simp add: c1)
  from res f s sub blk r show ?thesis
    by (intro exI [of _ i] exI [of _ c1] exI [of _ m2]
              exI [of _ "\<lparr>text_p = name,
                   textLength = of_nat count, segmentCount = of_nat segCount,
                   segments = data,
                   hashes = SegmentHashes (ptr_add data (4 * segCount))\<rparr>"]) simp
qed

text \<open>
  C9, as amended. \<open>addUnqualifiedName\<close> stores the caller's pointer: the arena is
  untouched, and the stored text is whatever is written to the caller's buffer later.
  \<open>addQualifiedName\<close>, for every segment count below \<open>2^32\<close>, on an arena that
  has served only requests of at most \<open>kChunkSize\<close> bytes and with a request of its
  own (\<open>count\<close> bytes, and 8 more for each segment of a multi-segment name) of at
  most \<open>kChunkSize\<close>, stores a pointer into the range \<open>[data, data + sz)\<close> that
  this call obtains from the arena and copies the name there. That range is
  arena-owned storage: it lies inside the \<open>kChunkSize\<close> bytes of a chunk listed in
  the arena's \<open>buffers\<close>, the arena has advanced past it, and it is disjoint from
  every range the arena handed out before and from every range it hands out
  afterwards. The stored text equals the name and stays so under any later change of
  memory outside the copy, in particular under any write to a caller's buffer.
\<close>

theorem text_pointer_or_arena_copy:
  assumes "stringArena c = snd (allocs K Arena_init szs)"
    and "\<forall>s\<in>set szs. s \<le> K"
    and "segCount < 2 ^ 32"
    and "(if segCount \<le> 1 then count else count + 2 * (segCount * 4)) \<le> K"
    and "\<forall>s\<in>set later. s \<le> K"
  shows
   "(\<exists>i c1 ident. addUnqualifiedName H chars count c m = Some (i, c1)
        \<and> find_id c1 i = Some ident \<and> text_p ident = chars
        \<and> stringArena c1 = stringArena c
        \<and> (\<forall>new. length new = count \<longrightarrow>
               read_bytes (put_bytes m chars new) (text_p ident) count = new))
    \<and> (let sz = (if segCount \<le> 1 then count else count + 2 * (segCount * 4));
            data = fst (alloc K (stringArena c) sz);
            name = (if segCount \<le> 1 then data else ptr_add data (4 * (segCount * 2)))
        in \<exists>i c1 m1 ident.
             addQualifiedName3 H K chars count segCount c m = Some (i, c1, m1)
             \<and> find_id c1 i = Some ident \<and> text_p ident = name
             \<and> stringArena c1 = snd (allocs K Arena_init (szs @ [sz]))
             \<and> range_bytes (name, count) \<subseteq> range_bytes (data, sz)
             \<and> in_chunk K (data, sz)
             \<and> (0 < sz \<longrightarrow> (fst data, 0) \<in> set (buffers (stringArena c1)))
             \<and> (\<forall>r\<in>set (fst (allocs K Arena_init szs)).
                    range_bytes r \<inter> range_bytes (data, sz) = {})
             \<and> (\<forall>r\<in>set (fst (allocs K (stringArena c1) later)).
                    range_bytes r \<inter> range_bytes (data, sz) = {})
             \<and> read_bytes m1 name count = read_bytes m chars count
             \<and> (\<forall>m2. (\<forall>q\<in>range_bytes (name, count). bytes m2 q = bytes m1 q) \<longrightarrow>
                    read_bytes m2 name count = read_bytes m chars count)
             \<and> (\<forall>b new. fst chars = Ext b \<longrightarrow>
                    read_bytes (put_bytes m1 chars new) name count = read_bytes m chars count))"
proof -
  have unq: "\<exists>i c1 ident. addUnqualifiedName H chars count c m = Some (i, c1)
        \<and> find_id c1 i = Some ident \<and> text_p ident = chars
        \<and> stringArena c1 = stringArena c
        \<and> (\<forall>new. length new = count \<longrightarrow>
               read_bytes (put_bytes m chars new) (text_p ident) count = new)"
    by (simp add: addUnqualifiedName_eq find_id_def read_put_bytes_same)
  define sz where "sz = (if segCount \<le> 1 then count else count + 2 * (segCount * 4))"
  define data where "data = fst (alloc K (stringArena c) sz)"
  define name where "name = (if segCount \<le> 1 then data else ptr_add data (4 * (segCount * 2)))"
  have szK: "sz \<le> K" using assms(4) by (simp add: sz_def)
  from addQualifiedName3_text [OF assms(3) sz_def data_def name_def, of H chars m]
  obtain i c1 m1 ident where
    res: "addQualifiedName3 H K chars count segCount c m = Some (i, c1, m1)"
    and f: "find_id c1 i = Some ident" and t: "text_p ident = name"
    and a1: "stringArena c1 = snd (alloc K (stringArena c) sz)"
    and sub: "range_bytes (name, count) \<subseteq> range_bytes (data, sz)"
    and blk: "fst name = fst data"
    and r: "read_bytes m1 name count = read_bytes m chars count"
    by blast
  note h = alloc_after_history [OF assms(2) szK assms(5), folded assms(1), folded data_def]
  have s: "stringArena c1 = snd (allocs K Arena_init (szs @ [sz]))"
    using a1 h(1) by simp
  have inb: "in_chunk K (data, sz)" by (rule h(2))
  have own: "0 < sz \<longrightarrow> (fst data, 0) \<in> set (buffers (stringArena c1))"
    using h(3) a1 by simp
  have before: "\<forall>r\<in>set (fst (allocs K Arena_init szs)).
                    range_bytes r \<inter> range_bytes (data, sz) = {}"
    by (rule h(4))
  have after: "\<forall>r\<in>set (fst (allocs K (stringArena c1) later)).
                    range_bytes r \<inter> range_bytes (data, sz) = {}"
    using h(5) a1 by simp
  have ag: "\<forall>m2. (\<forall>q\<in>range_bytes (name, count). bytes m2 q = bytes m1 q) \<longrightarrow>
                    read_bytes m2 name count = read_bytes m chars count"
    using read_bytes_agree r by metis
  have ind: "\<forall>b new. fst chars = Ext b \<longrightarrow>
                    read_bytes (put_bytes m1 chars new) name count = read_bytes m chars count"
    using in_chunk_not_Ext [OF inb] blk r
    by (metis read_put_bytes_other_block)
  have "\<exists>i c1 m1 ident.
             addQualifiedName3 H K chars count segCount c m = Some (i, c1, m1)
             \<and> find_id c1 i = Some ident \<and> text_p ident = name
             \<and> stringArena c1 = snd (allocs K Arena_init (szs @ [sz]))
             \<and> range_bytes (name, count) \<subseteq> range_bytes (data, sz)
             \<and> in_chunk K (data, sz)
             \<and> (0 < sz \<longrightarrow> (fst data, 0) \<in> set (buffers (stringArena c1)))
             \<and> (\<forall>r\<in>set (fst (allocs K Arena_init szs)).
                    range_bytes r \<inter> range_bytes (data, sz) = {})
             \<and> (\<forall>r\<in>set (fst (allocs K (stringArena c1) later)).
                    range_bytes r \<inter> range_bytes (data, sz) = {})
             \<and> read_bytes m1 name count = read_bytes m chars count
             \<and> (\<forall>m2. (\<forall>q\<in>range_bytes (name, count). bytes m2 q = bytes m1 q) \<longrightarrow>
                    read_bytes m2 name count = read_bytes m chars count)
             \<and> (\<forall>b new. fst chars = Ext b \<longrightarrow>
                    read_bytes (put_bytes m1 chars new) name count = read_bytes m chars count)"
    using res f t s sub inb own before after r ag ind by blast
  with unq show ?thesis
    unfolding Let_def sz_def [symmetric] data_def [symmetric] name_def [symmetric] by blast
qed

lemma allocs_init_5:
  "allocs 64 Arena_init [5]
     = ([((Chunk 0, 0), 5)],
        \<lparr>buffer = (Chunk 0, 5), max_p = (Chunk 0, 64), buffers = [(Chunk 0, 0)]\<rparr>)"
  by (simp add: alloc_def Arena_init_def nullptr_def ptr_gt_def ptr_add_def malloc_def Let_def)

lemma alloc_after_5:
  "alloc 64 \<lparr>buffer = (Chunk 0, 5), max_p = (Chunk 0, 64), buffers = [(Chunk 0, 0)]\<rparr> 32
     = ((Chunk 0, 5),
        \<lparr>buffer = (Chunk 0, 37), max_p = (Chunk 0, 64), buffers = [(Chunk 0, 0)]\<rparr>)"
  by (simp add: alloc_def ptr_gt_def ptr_add_def malloc_def Let_def)

theorem text_pointer_or_arena_copy_witness:
  "stringArena (Context_init\<lparr>stringArena := snd (allocs 64 Arena_init [5])\<rparr>)
     = snd (allocs 64 Arena_init [5])
   \<and> list_all (\<lambda>s. s \<le> (64 :: nat)) [5] \<and> (3 :: nat) < 2 ^ 32 \<and> (32 :: nat) \<le> 64
   \<and> list_all (\<lambda>s. s \<le> (64 :: nat)) [8]
   \<and> (\<exists>i c1 ident.
         addUnqualifiedName fnv1a (Ext 0, 0) 8
            (Context_init\<lparr>stringArena := snd (allocs 64 Arena_init [5])\<rparr>)
            (put_bytes Memory_zero (Ext 0, 0) ''a.bc.def'') = Some (i, c1)
         \<and> find_id c1 i = Some ident \<and> text_p ident = (Ext 0, 0)
         \<and> stringArena c1 = snd (allocs 64 Arena_init [5])
         \<and> read_bytes (put_bytes (put_bytes Memory_zero (Ext 0, 0) ''a.bc.def'')
                          (Ext 0, 0) ''x.yz.uvw'') (text_p ident) 8 = ''x.yz.uvw'')
   \<and> (\<exists>i c1 m1 ident.
         addQualifiedName3 fnv1a 64 (Ext 0, 0) 8 3
            (Context_init\<lparr>stringArena := snd (allocs 64 Arena_init [5])\<rparr>)
            (put_bytes Memory_zero (Ext 0, 0) ''a.bc.def'') = Some (i, c1, m1)
         \<and> find_id c1 i = Some ident \<and> text_p ident = (Chunk 0, 29)
         \<and> stringArena c1 = snd (allocs 64 Arena_init [5, 32])
         \<and> in_chunk 64 ((Chunk 0, 5), 32)
         \<and> (Chunk 0, 0) \<in> set (buffers (stringArena c1))
         \<and> range_bytes ((Chunk 0, 0), 5) \<inter> range_bytes ((Chunk 0, 5), 32) = {}
         \<and> read_bytes m1 (Chunk 0, 29) 8 = ''a.bc.def''
         \<and> read_bytes (put_bytes m1 (Ext 0, 0) ''x.yz.uvw'') (Chunk 0, 29) 8 = ''a.bc.def'')"
proof -
  let ?c = "Context_init\<lparr>stringArena := snd (allocs 64 Arena_init [5])\<rparr>"
  let ?m = "put_bytes Memory_zero (Ext 0, 0) ''a.bc.def''"
  have h1: "stringArena ?c = snd (allocs 64 Arena_init [5])" by simp
  have h2: "\<forall>s\<in>set [5]. s \<le> (64 :: nat)" by simp
  have h3: "(3 :: nat) < 2 ^ 32" by simp
  have h4: "(if (3 :: nat) \<le> 1 then 8 else 8 + 2 * (3 * 4)) \<le> (64 :: nat)" by simp
  have h5: "\<forall>s\<in>set [8]. s \<le> (64 :: nat)" by simp
  have sz: "(if (3 :: nat) \<le> 1 then 8 else 8 + 2 * (3 * 4)) = (32 :: nat)" by simp
  have d: "fst (alloc 64 (stringArena ?c) 32) = (Chunk 0, 5)"
    by (simp add: allocs_init_5 alloc_after_5 del: allocs.simps)
  have nm: "(if (3 :: nat) \<le> 1 then (Chunk 0, 5) else ptr_add (Chunk 0, 5) (4 * (3 * 2)))
      = (Chunk 0, 29)"
    by (simp add: ptr_add_def)
  note t = text_pointer_or_arena_copy [OF h1 h2 h3 h4 h5, of fnv1a "(Ext 0, 0)" ?m,
             unfolded Let_def sz d nm]
  from t [THEN conjunct1] obtain i c1 ident where
    u: "addUnqualifiedName fnv1a (Ext 0, 0) 8 ?c ?m = Some (i, c1)"
       "find_id c1 i = Some ident" "text_p ident = (Ext 0, 0)"
       "stringArena c1 = stringArena ?c"
    and un: "\<forall>new. length new = 8 \<longrightarrow>
               read_bytes (put_bytes ?m (Ext 0, 0) new) (text_p ident) 8 = new"
    by blast
  have u5: "read_bytes (put_bytes ?m (Ext 0, 0) ''x.yz.uvw'') (text_p ident) 8 = ''x.yz.uvw''"
    using un [rule_format, of "''x.yz.uvw''"] by simp
  have u4: "stringArena c1 = snd (allocs 64 Arena_init [5])"
    using u(4) by simp
  have A: "\<exists>i c1 ident.
         addUnqualifiedName fnv1a (Ext 0, 0) 8 ?c ?m = Some (i, c1)
         \<and> find_id c1 i = Some ident \<and> text_p ident = (Ext 0, 0)
         \<and> stringArena c1 = snd (allocs 64 Arena_init [5])
         \<and> read_bytes (put_bytes ?m (Ext 0, 0) ''x.yz.uvw'') (text_p ident) 8 = ''x.yz.uvw''"
    using u(1,2,3) u4 u5 by blast
  have B: "\<exists>i c1 m1 ident.
         addQualifiedName3 fnv1a 64 (Ext 0, 0) 8 3 ?c ?m = Some (i, c1, m1)
         \<and> find_id c1 i = Some ident \<and> text_p ident = (Chunk 0, 29)
         \<and> stringArena c1 = snd (allocs 64 Arena_init [5, 32])
         \<and> in_chunk 64 ((Chunk 0, 5), 32)
         \<and> (Chunk 0, 0) \<in> set (buffers (stringArena c1))
         \<and> range_bytes ((Chunk 0, 0), 5) \<inter> range_bytes ((Chunk 0, 5), 32) = {}
         \<and> read_bytes m1 (Chunk 0, 29) 8 = ''a.bc.def''
         \<and> read_bytes (put_bytes m1 (Ext 0, 0) ''x.yz.uvw'') (Chunk 0, 29) 8 = ''a.bc.def''"
    using t [THEN conjunct2]
    apply (elim exE conjE)
    subgoal for i c1 m1 ident
      apply (rule exI [of _ i], rule exI [of _ c1], rule exI [of _ m1], rule exI [of _ ident])
      apply (simp add: read_put_abcdef allocs_init_5 del: allocs.simps)
      done
    done
  have l1: "list_all (\<lambda>s. s \<le> (64 :: nat)) [5]" and l2: "list_all (\<lambda>s. s \<le> (64 :: nat)) [8]"
    by simp_all
  have h4': "(32 :: nat) \<le> 64" by simp
  from h1 l1 h3 h4' l2 A B show ?thesis by (intro conjI)
qed

lemma read_put_17:
  "read_bytes (put_bytes Memory_zero (Ext 0, 0) ''abcdefghijklmnopq'') (Ext 0, 0) 17
     = ''abcdefghijklmnopq''"
  by (simp add: read_put_bytes_same)

lemma alloc_init_17:
  "alloc 16 Arena_init 17
     = ((Chunk 0, 0), \<lparr>buffer = (Chunk 0, 17), max_p = (Chunk 0, 16), buffers = [(Chunk 0, 0)]\<rparr>)"
  by (simp add: alloc_def Arena_init_def nullptr_def ptr_gt_def ptr_add_def malloc_def Let_def)

text \<open>
  C9, as stated, fails for a name longer than \<open>kChunkSize\<close>. With
  \<open>kChunkSize = 16\<close>, \<open>addQualifiedName\<close> of a 17-byte single-segment name in a
  new context obtains a chunk of 16 bytes and copies 17 bytes to its start: the stored
  text runs past \<open>max\<close>, the end of the chunk, so it is not inside storage that the
  arena owns.
\<close>

theorem addQualifiedName_oversized_counterexample:
  "addQualifiedName3 fnv1a 16 (Ext 0, 0) 17 1 Context_init
      (put_bytes Memory_zero (Ext 0, 0) ''abcdefghijklmnopq'')
     = Some (hash_bytes fnv1a ''abcdefghijklmnopq'',
             Context_init\<lparr>stringArena :=
                 \<lparr>buffer = (Chunk 0, 17), max_p = (Chunk 0, 16), buffers = [(Chunk 0, 0)]\<rparr>,
               identifiers := [hash_bytes fnv1a ''abcdefghijklmnopq'' \<mapsto>
                 \<lparr>text_p = (Chunk 0, 0), textLength = 17, segmentCount = 1,
                  segments = nullptr,
                  hashes = SegmentHash (hash_bytes fnv1a ''abcdefghijklmnopq'')\<rparr>]\<rparr>,
             memcpy (put_bytes Memory_zero (Ext 0, 0) ''abcdefghijklmnopq'')
               (Chunk 0, 0) (Ext 0, 0) 17)
   \<and> \<not> in_chunk 16 ((Chunk 0, 0), 17)"
  by (simp add: addQualifiedName3_single Let_def alloc_init_17 read_bytes_memcpy_other
                overlap_def read_put_17 in_chunk_def)

end
